theory Spec2Isabelle
  imports Complex_Main "HOL-Library.Word"
begin

section \<open>Strings of the runtime\<close>

text \<open>
  A string of the program is a sequence of UTF-16 code units, here a list of naturals.
  \<open>ustr\<close> reads an ASCII literal as such a string.
\<close>

type_synonym jsstring = "nat list"

definition ustr :: "string \<Rightarrow> jsstring" where
  "ustr s = map of_char s"

text \<open>
  The line terminators (LF, CR, U+2028, U+2029) are where \<open>^\<close> matches under the
  \<open>m\<close> flag. The class \<open>\s\<close> of a regular expression and the characters that
  \<open>trim\<close> removes are the same set: white space and line terminators.
\<close>

definition isLineTerminator :: "nat \<Rightarrow> bool" where
  "isLineTerminator c = (c = 10 \<or> c = 13 \<or> c = 8232 \<or> c = 8233)"

definition isWhiteSpace :: "nat \<Rightarrow> bool" where
  "isWhiteSpace c =
     (c = 9 \<or> c = 10 \<or> c = 11 \<or> c = 12 \<or> c = 13 \<or> c = 32 \<or> c = 160 \<or> c = 5760
      \<or> (8192 \<le> c \<and> c \<le> 8202) \<or> c = 8232 \<or> c = 8233 \<or> c = 8239 \<or> c = 8287
      \<or> c = 12288 \<or> c = 65279)"

definition isDigit :: "nat \<Rightarrow> bool" where
  "isDigit c = (48 \<le> c \<and> c \<le> 57)"

definition isAlnum :: "nat \<Rightarrow> bool" where
  "isAlnum c = ((97 \<le> c \<and> c \<le> 122) \<or> (65 \<le> c \<and> c \<le> 90) \<or> isDigit c)"

definition trim :: "jsstring \<Rightarrow> jsstring" where
  "trim s = rev (dropWhile isWhiteSpace (rev (dropWhile isWhiteSpace s)))"

definition startsWith :: "jsstring \<Rightarrow> jsstring \<Rightarrow> bool" where
  "startsWith s p = (take (length p) s = p)"

fun js_includes :: "jsstring \<Rightarrow> jsstring \<Rightarrow> bool" where
  "js_includes [] p = (p = [])"
| "js_includes (c # cs) p = (startsWith (c # cs) p \<or> js_includes cs p)"

text \<open>
  \<open>toLowerCase\<close> and \<open>normalize("NFD")\<close> read the Unicode tables of the runtime, which
  are not part of the repository: the model takes them as a parameter. So is the number of
  elements the runtime lets an array grow to, \<open>arrayLimit\<close>: the language ends an array at
  \<open>2^32 - 1\<close> elements, and a runtime runs out of memory at some smaller length that the
  program cannot know.

  On strings of ASCII code units the tables are the functions of \<open>ascii_tables\<close>, which
  lets an array grow as far as the language does. \<open>vietnamese_tables\<close> adds to them the
  letter u with horn and tilde, capital (U+1EEE) and small (U+1EEF): its small form, and
  its decomposition into u, the horn U+031B and the tilde U+0303.
\<close>

record runtime =
  toLowerCase :: "jsstring \<Rightarrow> jsstring"
  normalizeNFD :: "jsstring \<Rightarrow> jsstring"
  arrayLimit :: nat

definition maxArrayLength :: nat where
  "maxArrayLength = 2 ^ 32 - 1"

definition lower_ascii :: "nat \<Rightarrow> nat" where
  "lower_ascii c = (if 65 \<le> c \<and> c \<le> 90 then c + 32 else c)"

definition ascii_tables :: runtime where
  "ascii_tables =
     \<lparr>toLowerCase = map lower_ascii, normalizeNFD = (\<lambda>s. s), arrayLimit = maxArrayLength\<rparr>"




text \<open>
  What ends a call without a result, apart from the errors the program throws itself: the
  \<open>RangeError\<close> of the language, and the end of the memory of the runtime.
\<close>

datatype js_error = RangeError | OutOfMemory

definition andThen :: "js_error + 'a \<Rightarrow> ('a \<Rightarrow> js_error + 'b) \<Rightarrow> js_error + 'b" where
  "andThen r f = (case r of Inl e \<Rightarrow> Inl e | Inr x \<Rightarrow> f x)"

text \<open>
  \<open>s.toLowerCase().normalize("NFD")\<close>, then the combining marks U+0300 to U+036F removed.
\<close>

definition normalizeHint :: "runtime \<Rightarrow> jsstring \<Rightarrow> jsstring" where
  "normalizeHint U s =
     filter (\<lambda>c. \<not> (768 \<le> c \<and> c \<le> 879)) (normalizeNFD U (toLowerCase U s))"

section \<open>parseGenders\<close>

text \<open>\<open>split(/[\s,]+/)\<close>: the pieces between maximal runs of separators, empty ones kept.\<close>

definition isSeparator :: "nat \<Rightarrow> bool" where
  "isSeparator c = (isWhiteSpace c \<or> c = 44)"

function js_split :: "jsstring \<Rightarrow> jsstring list" where
  "js_split s =
     (let piece = takeWhile (\<lambda>c. \<not> isSeparator c) s;
          rest = dropWhile (\<lambda>c. \<not> isSeparator c) s
      in if rest = [] then [piece] else piece # js_split (dropWhile isSeparator rest))"
  by pat_completeness auto
termination
proof (relation "measure length")
  show "wf (measure length)" by simp
next
  fix s piece rest :: jsstring
  assume r: "rest = dropWhile (\<lambda>c. \<not> isSeparator c) s" and ne: "rest \<noteq> []"
  from ne obtain c cs where rc: "rest = c # cs" by (cases rest) auto
  have sep: "isSeparator c"
    using r rc dropWhile_eq_Cons_conv [of "\<lambda>c. \<not> isSeparator c" s c cs] by simp
  have "length (dropWhile isSeparator rest) \<le> length cs"
    using rc sep by (simp add: length_dropWhile_le)
  moreover have "length rest \<le> length s"
    using r by (simp add: length_dropWhile_le)
  ultimately show "(dropWhile isSeparator rest, s) \<in> measure length"
    using rc by simp
qed

text \<open>
  \<open>parseInt(part, 10)\<close>: leading white space, an optional sign, then the longest prefix
  of decimal digits; \<open>None\<close> is NaN. The value is the exact integer. The runtime rounds it
  to a double beyond \<open>2^53\<close>, to infinity in the end; the only use of the number is the
  bound of the loop of pushes below, which no array survives from \<open>2^32\<close> on, so the
  rounding of such a count changes nothing.
\<close>

definition digitsValue :: "jsstring \<Rightarrow> int" where
  "digitsValue ds = foldl (\<lambda>a c. 10 * a + (int c - 48)) 0 ds"

definition parseInt10 :: "jsstring \<Rightarrow> int option" where
  "parseInt10 s =
     (let t = dropWhile isWhiteSpace s;
          sign = (if t \<noteq> [] \<and> hd t = 45 then - 1 else 1);
          u = (if t \<noteq> [] \<and> (hd t = 45 \<or> hd t = 43) then tl t else t);
          ds = takeWhile isDigit u
      in if ds = [] then None else Some (sign * digitsValue ds))"

text \<open>
  \<open>genders.push(g)\<close>: the array grows by one element. At \<open>2^32 - 1\<close> elements the push
  raises \<open>RangeError\<close> (the length \<open>2^32\<close> is no array length); at the limit of the runtime
  the memory is at its end.
\<close>

definition js_push :: "runtime \<Rightarrow> 'a list \<Rightarrow> 'a \<Rightarrow> js_error + 'a list" where
  "js_push U xs x =
     (if maxArrayLength \<le> length xs then Inl RangeError
      else if arrayLimit U \<le> length xs then Inl OutOfMemory
      else Inr (xs @ [x]))"



text \<open>\<open>for (let i = 0; i < currentCount; i++) genders.push(g)\<close>\<close>

fun pushTimes :: "runtime \<Rightarrow> nat \<Rightarrow> string \<Rightarrow> string list \<Rightarrow> js_error + string list" where
  "pushTimes U 0 g genders = Inr genders"
| "pushTimes U (Suc n) g genders = andThen (js_push U genders g) (pushTimes U n g)"

definition isPositiveInt :: "jsstring \<Rightarrow> bool" where
  "isPositiveInt part = (case parseInt10 part of None \<Rightarrow> False | Some num \<Rightarrow> num > 0)"

definition isMaleToken :: "jsstring \<Rightarrow> bool" where
  "isMaleToken part =
     (startsWith part (ustr ''nam'') \<or> startsWith part (ustr ''man'')
      \<or> startsWith part (ustr ''men''))"

definition isFemaleToken :: "jsstring \<Rightarrow> bool" where
  "isFemaleToken part =
     (startsWith part (ustr ''nu'') \<or> startsWith part (ustr ''woman'')
      \<or> startsWith part (ustr ''women''))"

text \<open>The loop over \<open>parts\<close>, with its two variables \<open>currentCount\<close> and \<open>genders\<close>.\<close>

fun parseGenders_loop ::
  "runtime \<Rightarrow> jsstring list \<Rightarrow> nat \<Rightarrow> string list \<Rightarrow> js_error + string list" where
  "parseGenders_loop U [] currentCount genders = Inr genders"
| "parseGenders_loop U (part # parts) currentCount genders =
     (if isPositiveInt part
        then parseGenders_loop U parts (nat (the (parseInt10 part))) genders
      else if isMaleToken part
        then andThen (pushTimes U currentCount ''male'' genders) (parseGenders_loop U parts 1)
      else if isFemaleToken part
        then andThen (pushTimes U currentCount ''female'' genders) (parseGenders_loop U parts 1)
      else parseGenders_loop U parts currentCount genders)"

definition genderParts :: "runtime \<Rightarrow> jsstring \<Rightarrow> jsstring list" where
  "genderParts U genderString =
     filter (\<lambda>p. p \<noteq> []) (js_split (normalizeHint U genderString))"

definition parseGenders :: "runtime \<Rightarrow> jsstring \<Rightarrow> js_error + string list" where
  "parseGenders U genderString =
     (if trim genderString = [] then Inr []
      else parseGenders_loop U (genderParts U genderString) 1 [])"

section \<open>The gender-phrase grammar, as the specification words it\<close>











section \<open>generateSpeech: the voice configuration\<close>

definition MALE_VOICES :: "string list" where
  "MALE_VOICES = [''Puck'', ''Charon'', ''Fenrir'']"

definition FEMALE_VOICES :: "string list" where
  "FEMALE_VOICES = [''Kore'', ''Zephyr'']"

text \<open>
  The errors \<open>generateSpeech\<close> throws while it builds the configuration, under the names
  the specification gives them; each carries the number its message prints. The last one is
  not thrown by \<open>generateSpeech\<close> itself: it is the failure of \<open>parseGenders\<close>, which ends the
  call as well.
\<close>

datatype speech_error =
    UnsupportedVoiceCount int
  | MissingSpeakerLabels
  | SpeakerCountMismatch nat
  | GenderCountMismatch nat
  | RuntimeFailure js_error

text \<open>
  \<open>script.match(/^([a-zA-Z0-9\s]+):/gm)\<close>. At a line start the expression matches the
  longest run of class characters when the run is not empty and a colon follows it (the
  colon is outside the class, so no shorter run can match). The search goes on behind the
  colon of a match, and one position further where there is none.
\<close>

definition isLabelChar :: "nat \<Rightarrow> bool" where
  "isLabelChar c = (isAlnum c \<or> isWhiteSpace c)"

definition matchLabelAt :: "jsstring \<Rightarrow> (jsstring \<times> jsstring) option" where
  "matchLabelAt s =
     (case dropWhile isLabelChar s of
        [] \<Rightarrow> None
      | c # rest \<Rightarrow>
          if takeWhile isLabelChar s \<noteq> [] \<and> c = 58
          then Some (takeWhile isLabelChar s @ [58], rest) else None)"

function matchAll :: "bool \<Rightarrow> jsstring \<Rightarrow> jsstring list" where
  "matchAll atLineStart [] = []"
| "matchAll atLineStart (c # cs) =
     (case (if atLineStart then matchLabelAt (c # cs) else None) of
        Some (m, rest) \<Rightarrow> m # matchAll False rest
      | None \<Rightarrow> matchAll (isLineTerminator c) cs)"
  by pat_completeness auto
termination
proof (relation "measure (\<lambda>(b, s). length s)")
  show "wf (measure (\<lambda>(b, s). length s))" by simp
next
  fix atLineStart :: bool and c :: nat and cs :: jsstring
  show "((isLineTerminator c, cs), (atLineStart, c # cs)) \<in> measure (\<lambda>(b, s). length s)"
    by simp
next
  fix atLineStart :: bool and c :: nat and cs x2 m rest :: jsstring
    and x :: "jsstring \<times> jsstring"
  assume a: "(if atLineStart then matchLabelAt (c # cs) else None) = Some x" "(m, rest) = x"
  then have "matchLabelAt (c # cs) = Some (m, rest)"
    by (auto split: if_splits)
  then have "dropWhile isLabelChar (c # cs) = 58 # rest"
    unfolding matchLabelAt_def by (auto split: list.splits if_splits)
  then have "length (58 # rest) \<le> length (c # cs)"
    using length_dropWhile_le [of isLabelChar "c # cs"] by simp
  then show "((False, rest), (atLineStart, c # cs)) \<in> measure (\<lambda>(b, s). length s)"
    by simp
qed

text \<open>\<open>[...new Set(xs)]\<close>: the distinct values, in the order of their first insertion.\<close>

definition setAdd :: "'a list \<Rightarrow> 'a \<Rightarrow> 'a list" where
  "setAdd seen x = (if x \<in> set seen then seen else seen @ [x])"

definition newSet :: "'a list \<Rightarrow> 'a list" where
  "newSet xs = foldl setAdd [] xs"

text \<open>\<open>matches.map(s => s.slice(0, -1).trim())\<close>, and the set of its values.\<close>

definition speakerLabels :: "jsstring \<Rightarrow> jsstring list" where
  "speakerLabels script = map (\<lambda>s. trim (butlast s)) (matchAll True script)"

definition speakersOf :: "jsstring \<Rightarrow> jsstring list" where
  "speakersOf script = newSet (speakerLabels script)"

text \<open>
  \<open>pool[index % pool.length]\<close>: on an empty pool the index is NaN and the read gives
  \<open>undefined\<close>, here \<open>None\<close>.
\<close>

definition voiceAt :: "string list \<Rightarrow> nat \<Rightarrow> string option" where
  "voiceAt pool i = (if pool = [] then None else Some (pool ! (i mod length pool)))"

text \<open>
  \<open>speakers.map((speaker, index) => ...)\<close> with the two counters it updates. A read of
  \<open>requestedGenders\<close> beyond its end is \<open>undefined\<close>, which is not \<open>'male'\<close>.
\<close>

definition genderFor :: "string list \<Rightarrow> nat \<Rightarrow> string option" where
  "genderFor requestedGenders index =
     (if length requestedGenders > 0
      then (if index < length requestedGenders then Some (requestedGenders ! index) else None)
      else Some (if index = 0 then ''male'' else ''female''))"

fun mapSpeakers ::
  "string list \<Rightarrow> string list \<Rightarrow> string list \<Rightarrow> nat \<Rightarrow> nat \<Rightarrow> nat \<Rightarrow> jsstring list
     \<Rightarrow> (jsstring \<times> string option) list" where
  "mapSpeakers males females requestedGenders index maleVoiceIndex femaleVoiceIndex [] = []"
| "mapSpeakers males females requestedGenders index maleVoiceIndex femaleVoiceIndex
       (speaker # speakers) =
     (if genderFor requestedGenders index = Some ''male''
      then (speaker, voiceAt males maleVoiceIndex)
             # mapSpeakers males females requestedGenders (Suc index)
                 (Suc maleVoiceIndex) femaleVoiceIndex speakers
      else (speaker, voiceAt females femaleVoiceIndex)
             # mapSpeakers males females requestedGenders (Suc index)
                 maleVoiceIndex (Suc femaleVoiceIndex) speakers)"

definition speakerVoiceConfigs ::
  "string list \<Rightarrow> string list \<Rightarrow> runtime \<Rightarrow> jsstring \<Rightarrow> jsstring
     \<Rightarrow> speech_error + (jsstring \<times> string option) list" where
  "speakerVoiceConfigs males females U script voiceGenders =
     (if matchAll True script = [] then Inl MissingSpeakerLabels
      else if length (speakersOf script) \<noteq> 2
        then Inl (SpeakerCountMismatch (length (speakersOf script)))
      else (case parseGenders U voiceGenders of
              Inl e \<Rightarrow> Inl (RuntimeFailure e)
            | Inr requestedGenders \<Rightarrow>
                if length requestedGenders > 0 \<and> length requestedGenders \<noteq> 2
                  then Inl (GenderCountMismatch (length requestedGenders))
                else Inr (mapSpeakers males females requestedGenders 0 0 0
                            (speakersOf script))))"

text \<open>The single-voice branch: \<open>'Kore'\<close> unless the normalised hint includes nam or man.\<close>

definition singleVoiceName :: "runtime \<Rightarrow> jsstring \<Rightarrow> string" where
  "singleVoiceName U voiceGenders =
     (if js_includes (normalizeHint U voiceGenders) (ustr ''nam'')
         \<or> js_includes (normalizeHint U voiceGenders) (ustr ''man'')
      then ''Puck'' else ''Kore'')"

datatype speech_config =
    VoiceConfig string
  | MultiSpeakerVoiceConfig "(jsstring \<times> string option) list"

text \<open>
  The configuration \<open>generateSpeech\<close> hands to the remote call, or the error it throws
  before the call. \<open>numVoices\<close> is an integer here.
\<close>

definition generateSpeech_config ::
  "runtime \<Rightarrow> jsstring \<Rightarrow> int \<Rightarrow> jsstring \<Rightarrow> speech_error + speech_config" where
  "generateSpeech_config U script numVoices voiceGenders =
     (if numVoices \<le> 1 then Inr (VoiceConfig (singleVoiceName U voiceGenders))
      else if numVoices \<noteq> 2 then Inl (UnsupportedVoiceCount numVoices)
      else (case speakerVoiceConfigs MALE_VOICES FEMALE_VOICES U script voiceGenders of
              Inl e \<Rightarrow> Inl e
            | Inr cs \<Rightarrow> Inr (MultiSpeakerVoiceConfig cs)))"

text \<open>
  The guard of \<open>handleGenerateAudio\<close> on the parsed count (\<open>None\<close> is NaN): the message
  it sets, or none.
\<close>

datatype ui_error = CountBelowOne | CountAboveTwo

definition handleGenerateAudio_guard :: "int option \<Rightarrow> ui_error option" where
  "handleGenerateAudio_guard parsedNumVoices =
     (case parsedNumVoices of
        None \<Rightarrow> Some CountBelowOne
      | Some n \<Rightarrow> if n < 1 then Some CountBelowOne
                  else if n > 2 then Some CountAboveTwo else None)"

section \<open>Label lines, as the specification words them\<close>

text \<open>
  The specification speaks of the lines of the script that start with a label (letters,
  digits and spaces) followed at once by a colon. \<open>lineLabels\<close> follows these words:
  the script is cut at its line terminators, and a label is the run of letters, digits
  and white space within one line before the colon, trimmed.
\<close>

definition isLineLabelChar :: "nat \<Rightarrow> bool" where
  "isLineLabelChar c = (isAlnum c \<or> (isWhiteSpace c \<and> \<not> isLineTerminator c))"

fun js_lines :: "jsstring \<Rightarrow> jsstring list" where
  "js_lines [] = [[]]"
| "js_lines (c # cs) =
     (if isLineTerminator c then [] # js_lines cs
      else (case js_lines cs of [] \<Rightarrow> [[c]] | l # ls \<Rightarrow> (c # l) # ls))"

definition lineLabel :: "jsstring \<Rightarrow> jsstring option" where
  "lineLabel l =
     (case dropWhile isLineLabelChar l of
        [] \<Rightarrow> None
      | c # rest \<Rightarrow>
          if takeWhile isLineLabelChar l \<noteq> [] \<and> c = 58
          then Some (trim (takeWhile isLineLabelChar l)) else None)"

definition lineLabels :: "jsstring \<Rightarrow> jsstring list" where
  "lineLabels script = List.map_filter lineLabel (js_lines script)"

section \<open>Numbers of the runtime\<close>

text \<open>
  A number of the program is an IEEE 754 binary64 value: a rational (every finite double is
  one), an infinity, or NaN. The sign of zero plays no part in the encoder and is not kept.
\<close>

datatype number = Finite rat | PosInfinity | NegInfinity | NaN

text \<open>
  Rounding of an exact result to the nearest double, ties to even. \<open>floorLog2 x\<close> is the
  binary exponent of a positive \<open>x\<close>; below the exponent \<open>-1022\<close> the spacing of the doubles
  stays that of the subnormal range; a rounded value of \<open>2 ^ 1024\<close> or more is infinite.
\<close>

definition pow2 :: "int \<Rightarrow> rat" where
  "pow2 k = (if 0 \<le> k then 2 ^ nat k else 1 / 2 ^ nat (- k))"

fun bitLength :: "nat \<Rightarrow> nat" where
  "bitLength n = (if n = 0 then 0 else Suc (bitLength (n div 2)))"

definition floorLog2 :: "rat \<Rightarrow> int" where
  "floorLog2 x =
     (if 1 \<le> x then int (bitLength (nat \<lfloor>x\<rfloor>)) - 1
      else (let l = int (bitLength (nat \<lfloor>1 / x\<rfloor>)) - 1
            in if x = pow2 (- l) then - l else - l - 1))"

definition roundHalfEven :: "rat \<Rightarrow> int" where
  "roundHalfEven m =
     (let f = \<lfloor>m\<rfloor>; r = m - of_int f
      in if r < 1 / 2 then f else if 1 / 2 < r then f + 1 else if even f then f else f + 1)"

definition roundPositive :: "rat \<Rightarrow> number" where
  "roundPositive x =
     (let e = max (floorLog2 x) (- 1022);
          ulp = pow2 (e - 52);
          r = of_int (roundHalfEven (x / ulp)) * ulp
      in if pow2 1024 \<le> r then PosInfinity else Finite r)"

definition roundToDouble :: "rat \<Rightarrow> number" where
  "roundToDouble x =
     (if x = 0 then Finite 0
      else if 0 < x then roundPositive x
      else (case roundPositive (- x) of
              Finite r \<Rightarrow> Finite (- r) | PosInfinity \<Rightarrow> NegInfinity | y \<Rightarrow> y))"

text \<open>The operators \<open>*\<close>, \<open>Math.floor\<close> and \<open>> 0\<close> on numbers.\<close>

fun js_times :: "number \<Rightarrow> number \<Rightarrow> number" where
  "js_times NaN y = NaN"
| "js_times x NaN = NaN"
| "js_times (Finite a) (Finite b) = roundToDouble (a * b)"
| "js_times (Finite a) PosInfinity =
     (if a = 0 then NaN else if 0 < a then PosInfinity else NegInfinity)"
| "js_times (Finite a) NegInfinity =
     (if a = 0 then NaN else if 0 < a then NegInfinity else PosInfinity)"
| "js_times PosInfinity (Finite b) =
     (if b = 0 then NaN else if 0 < b then PosInfinity else NegInfinity)"
| "js_times NegInfinity (Finite b) =
     (if b = 0 then NaN else if 0 < b then NegInfinity else PosInfinity)"
| "js_times PosInfinity PosInfinity = PosInfinity"
| "js_times PosInfinity NegInfinity = NegInfinity"
| "js_times NegInfinity PosInfinity = NegInfinity"
| "js_times NegInfinity NegInfinity = PosInfinity"

definition js_floor :: "number \<Rightarrow> number" where
  "js_floor x = (case x of Finite q \<Rightarrow> Finite (of_int \<lfloor>q\<rfloor>) | y \<Rightarrow> y)"

definition greaterThanZero :: "number \<Rightarrow> bool" where
  "greaterThanZero x = (case x of Finite q \<Rightarrow> 0 < q | PosInfinity \<Rightarrow> True | y \<Rightarrow> False)"

definition truncate :: "rat \<Rightarrow> int" where
  "truncate q = (if 0 \<le> q then \<lfloor>q\<rfloor> else \<lceil>q\<rceil>)"

section \<open>Byte buffers\<close>

unbundle bit_operations_syntax

text \<open>
  A \<open>Uint8Array\<close>, and an \<open>ArrayBuffer\<close> seen through a \<open>DataView\<close> or a \<open>Uint8Array\<close>, is
  a list of bytes. The functions of \<open>audioUtils.ts\<close> never share a buffer between a caller and
  a callee that writes to it, so a write returns the updated list.

  The one error of this layer is the \<open>RangeError\<close> of the constructors and of the writes.
  A constructor converts its length with \<open>ToIndex\<close>, which raises \<open>RangeError\<close> for a negative
  length and for a length above \<open>2 ^ 53 - 1\<close>, and then asks the runtime for a block of that
  many bytes; where the runtime cannot create the block, the constructor raises
  \<open>RangeError\<close> as well. Whether it can depends on the memory in use and on the limits of
  the engine, which the program does not know: the model takes the answer of the runtime as
  a parameter, a function from its state and the length asked for to its next state, and
  to none where it refuses.
\<close>

type_synonym bytes = "8 word list"

type_synonym 'h allocator = "'h \<Rightarrow> nat \<Rightarrow> 'h option"

definition createByteDataBlock :: "'h allocator \<Rightarrow> nat \<Rightarrow> 'h \<Rightarrow> js_error + bytes \<times> 'h" where
  "createByteDataBlock A n h =
     (case A h n of None \<Rightarrow> Inl RangeError | Some h' \<Rightarrow> Inr (replicate n 0, h'))"

definition maxIndex :: nat where
  "maxIndex = 2 ^ 53 - 1"

definition ToIndex :: "number \<Rightarrow> nat option" where
  "ToIndex x =
     (case x of
        NaN \<Rightarrow> Some 0
      | Finite q \<Rightarrow>
          if 0 \<le> truncate q \<and> truncate q \<le> int maxIndex then Some (nat (truncate q)) else None
      | y \<Rightarrow> None)"

text \<open>\<open>new Uint8Array(len)\<close> for a number \<open>len\<close>: zero-filled.\<close>

definition newUint8Array :: "'h allocator \<Rightarrow> number \<Rightarrow> 'h \<Rightarrow> js_error + bytes \<times> 'h" where
  "newUint8Array A len h =
     (case ToIndex len of None \<Rightarrow> Inl RangeError | Some n \<Rightarrow> createByteDataBlock A n h)"

text \<open>
  \<open>new ArrayBuffer(len)\<close> and \<open>new Uint8Array(len)\<close> for a length that is the sum of two
  buffer lengths. The program adds the two as doubles; the sum is exact up to \<open>2 ^ 53\<close> and
  rounds to a value of at least \<open>2 ^ 53\<close> above it, so the test of \<open>ToIndex\<close> on the double is
  the test on the exact sum.
\<close>

definition newArrayBuffer :: "'h allocator \<Rightarrow> nat \<Rightarrow> 'h \<Rightarrow> js_error + bytes \<times> 'h" where
  "newArrayBuffer A len h =
     (if len \<le> maxIndex then createByteDataBlock A len h else Inl RangeError)"

text \<open>
  A sample runtime for the examples: it holds \<open>capacity\<close> bytes of buffers in all and frees
  none; its state is the number of bytes in use. \<open>sampleHeap\<close> holds \<open>2 ^ 31\<close> bytes.
\<close>

definition boundedHeap :: "nat \<Rightarrow> nat allocator" where
  "boundedHeap capacity used n = (if used + n \<le> capacity then Some (used + n) else None)"

definition sampleHeap :: "nat allocator" where
  "sampleHeap = boundedHeap (2 ^ 31)"

text \<open>\<open>target.set(source, offset)\<close>\<close>

definition typedArraySet :: "bytes \<Rightarrow> bytes \<Rightarrow> nat \<Rightarrow> js_error + bytes" where
  "typedArraySet target source offset =
     (if offset + length source \<le> length target
      then Inr (take offset target @ source @ drop (offset + length source) target)
      else Inl RangeError)"

text \<open>
  The writes of a \<open>DataView\<close>. \<open>setUint32\<close> and \<open>setUint16\<close> are the little-endian ones
  (the program passes \<open>true\<close> every time); the value is truncated to an integer and reduced
  modulo \<open>2 ^ 32\<close> or \<open>2 ^ 16\<close>.
\<close>

definition setUint8 :: "nat \<Rightarrow> nat \<Rightarrow> bytes \<Rightarrow> js_error + bytes" where
  "setUint8 byteOffset v view =
     (if byteOffset < length view then Inr (view[byteOffset := word_of_nat v])
      else Inl RangeError)"

definition ToUint32 :: "rat \<Rightarrow> 32 word" where
  "ToUint32 v = word_of_int (truncate v)"

definition ToUint16 :: "rat \<Rightarrow> 16 word" where
  "ToUint16 v = word_of_int (truncate v)"

definition setUint32 :: "nat \<Rightarrow> rat \<Rightarrow> bytes \<Rightarrow> js_error + bytes" where
  "setUint32 byteOffset v view =
     (if byteOffset + 4 \<le> length view
      then Inr (view[byteOffset := ucast (ToUint32 v),
                     byteOffset + 1 := ucast (drop_bit 8 (ToUint32 v)),
                     byteOffset + 2 := ucast (drop_bit 16 (ToUint32 v)),
                     byteOffset + 3 := ucast (drop_bit 24 (ToUint32 v))])
      else Inl RangeError)"

definition setUint16 :: "nat \<Rightarrow> rat \<Rightarrow> bytes \<Rightarrow> js_error + bytes" where
  "setUint16 byteOffset v view =
     (if byteOffset + 2 \<le> length view
      then Inr (view[byteOffset := ucast (ToUint16 v),
                     byteOffset + 1 := ucast (drop_bit 8 (ToUint16 v))])
      else Inl RangeError)"

section \<open>createWavFile\<close>

text \<open>\<open>writeString(view, offset, str)\<close>: one \<open>setUint8\<close> for each character code.\<close>

fun writeString :: "nat \<Rightarrow> string \<Rightarrow> bytes \<Rightarrow> js_error + bytes" where
  "writeString offset [] view = Inr view"
| "writeString offset (c # str) view =
     andThen (setUint8 offset (of_char c) view) (writeString (Suc offset) str)"

text \<open>A sequence of writes to one view; the first error ends it.\<close>

fun runWrites :: "(bytes \<Rightarrow> js_error + bytes) list \<Rightarrow> bytes \<Rightarrow> js_error + bytes" where
  "runWrites [] view = Inr view"
| "runWrites (w # ws) view = andThen (w view) (runWrites ws)"

text \<open>
  \<open>createWavFile(pcmData, sampleRate, numChannels, bitsPerSample)\<close>. The three format
  parameters are natural numbers; \<open>byteRate\<close> and \<open>blockAlign\<close> are computed exactly, which
  is what the doubles give as long as the values stay below \<open>2 ^ 53\<close>. The one buffer it
  constructs is the \<open>ArrayBuffer\<close>; the \<open>DataView\<close> and the \<open>Uint8Array\<close> on it are views.
\<close>

definition createWavFile ::
  "'h allocator \<Rightarrow> bytes \<Rightarrow> nat \<Rightarrow> nat \<Rightarrow> nat \<Rightarrow> 'h \<Rightarrow> js_error + bytes \<times> 'h" where
  "createWavFile A pcmData sampleRate numChannels bitsPerSample h =
     (let headerLength = 44;
          dataSize = length pcmData;
          fileSize = dataSize + headerLength
      in andThen (newArrayBuffer A fileSize h) (\<lambda>(buffer, h').
           let byteRate = of_nat sampleRate * of_nat numChannels * (of_nat bitsPerSample / 8);
               blockAlign = of_nat numChannels * (of_nat bitsPerSample / 8)
           in andThen
                (runWrites
                   [writeString 0 ''RIFF'',
                    setUint32 4 (of_nat fileSize - 8),
                    writeString 8 ''WAVE'',
                    writeString 12 ''fmt '',
                    setUint32 16 16,
                    setUint16 20 1,
                    setUint16 22 (of_nat numChannels),
                    setUint32 24 (of_nat sampleRate),
                    setUint32 28 byteRate,
                    setUint16 32 blockAlign,
                    setUint16 34 (of_nat bitsPerSample),
                    writeString 36 ''data'',
                    setUint32 40 (of_nat dataSize)]
                   buffer)
                (\<lambda>wavBytes.
                   andThen (typedArraySet wavBytes pcmData headerLength)
                     (\<lambda>wavBytes. Inr (wavBytes, h')))))"

section \<open>createWavFileDataUrl\<close>

text \<open>
  The constants of \<open>createWavFileDataUrl\<close>, and the part of it between the base64 decoding of
  its argument and the base64 encoding of its result: \<open>wavFileBytes\<close> takes the decoded bytes
  and the duration and gives the bytes that are then encoded.

  \<open>silenceBytesCount\<close> is the number the program computes under \<open>trailingSilenceSeconds > 0\<close>.
  \<open>appendSilence\<close> is the conditional that replaces \<open>pcmData\<close>; the length of the combined
  buffer is \<open>pcmData.length + silenceBytesCount\<close>, and \<open>silenceBytesCount\<close> is the length of
  \<open>silenceBuffer\<close> once that buffer exists.
\<close>

definition tts_sampleRate :: nat where "tts_sampleRate = 24000"

definition tts_numChannels :: nat where "tts_numChannels = 1"

definition tts_bitsPerSample :: nat where "tts_bitsPerSample = 16"

definition silenceBytesCount :: "number \<Rightarrow> number" where
  "silenceBytesCount trailingSilenceSeconds =
     (let bytesPerSample = Finite (of_nat tts_bitsPerSample / 8);
          numSilenceSamples =
            js_floor (js_times trailingSilenceSeconds (Finite (of_nat tts_sampleRate)))
      in js_times (js_times numSilenceSamples (Finite (of_nat tts_numChannels))) bytesPerSample)"

definition appendSilence ::
  "'h allocator \<Rightarrow> bytes \<Rightarrow> number \<Rightarrow> 'h \<Rightarrow> js_error + bytes \<times> 'h" where
  "appendSilence A pcmData trailingSilenceSeconds h =
     (if greaterThanZero trailingSilenceSeconds
      then (if greaterThanZero (silenceBytesCount trailingSilenceSeconds)
            then andThen (newUint8Array A (silenceBytesCount trailingSilenceSeconds) h)
                   (\<lambda>(silenceBuffer, h1).
                 andThen (newArrayBuffer A (length pcmData + length silenceBuffer) h1)
                   (\<lambda>(combinedData, h2).
                 andThen (typedArraySet combinedData pcmData 0)
                   (\<lambda>combinedData.
                 andThen (typedArraySet combinedData silenceBuffer (length pcmData))
                   (\<lambda>combinedData. Inr (combinedData, h2)))))
            else Inr (pcmData, h))
      else Inr (pcmData, h))"

definition wavFileBytes ::
  "'h allocator \<Rightarrow> bytes \<Rightarrow> number \<Rightarrow> 'h \<Rightarrow> js_error + bytes \<times> 'h" where
  "wavFileBytes A pcmData trailingSilenceSeconds h =
     andThen (appendSilence A pcmData trailingSilenceSeconds h)
       (\<lambda>(pcmData, h').
          createWavFile A pcmData tts_sampleRate tts_numChannels tts_bitsPerSample h')"

text \<open>
  The lengths of the buffers that \<open>createWavFileDataUrl\<close> constructs, in their order: the
  silence buffer, the combined buffer and the output buffer when there are silence bytes,
  the output buffer alone when there are none. \<open>constructAll\<close> is the state of the runtime
  once it has granted each length of a list, none of them above \<open>2 ^ 53 - 1\<close>; it is none
  when one of them is refused.
\<close>

fun constructAll :: "'h allocator \<Rightarrow> nat list \<Rightarrow> 'h \<Rightarrow> 'h option" where
  "constructAll A [] h = Some h"
| "constructAll A (n # ns) h =
     (if n \<le> maxIndex
      then (case A h n of None \<Rightarrow> None | Some h' \<Rightarrow> constructAll A ns h')
      else None)"

definition bufferRequests :: "nat \<Rightarrow> nat \<Rightarrow> nat list" where
  "bufferRequests inputLength silenceBytes =
     (if silenceBytes = 0 then [inputLength + 44]
      else [silenceBytes, inputLength + silenceBytes, inputLength + silenceBytes + 44])"

section \<open>The header, as the specification words it\<close>

text \<open>
  The \<open>k\<close> bytes of a value in little-endian order, the value such bytes stand for, the bytes
  of a tag, and the 44 bytes of the header in the order of the specification.
\<close>

fun le_bytes :: "nat \<Rightarrow> nat \<Rightarrow> bytes" where
  "le_bytes 0 v = []"
| "le_bytes (Suc k) v = word_of_nat (v mod 256) # le_bytes k (v div 256)"

definition le_value :: "bytes \<Rightarrow> nat" where
  "le_value bs = foldr (\<lambda>b acc. unat b + 256 * acc) bs 0"

definition ascii :: "string \<Rightarrow> bytes" where
  "ascii s = map (\<lambda>c. word_of_nat (of_char c)) s"

definition wavHeader :: "nat \<Rightarrow> nat \<Rightarrow> nat \<Rightarrow> nat \<Rightarrow> bytes" where
  "wavHeader payloadLength sampleRate channels bitsPerSample =
     ascii ''RIFF'' @ le_bytes 4 (payloadLength + 44 - 8) @ ascii ''WAVE''
     @ ascii ''fmt '' @ le_bytes 4 16 @ le_bytes 2 1 @ le_bytes 2 channels
     @ le_bytes 4 sampleRate
     @ le_bytes 4 (sampleRate * channels * (bitsPerSample div 8))
     @ le_bytes 2 (channels * (bitsPerSample div 8))
     @ le_bytes 2 bitsPerSample
     @ ascii ''data'' @ le_bytes 4 payloadLength"

text \<open>The bytes that \<open>setUint32\<close> and \<open>setUint16\<close> store, in the order of their offsets.\<close>

definition uint32_le :: "rat \<Rightarrow> bytes" where
  "uint32_le v = [ucast (ToUint32 v), ucast (drop_bit 8 (ToUint32 v)),
                  ucast (drop_bit 16 (ToUint32 v)), ucast (drop_bit 24 (ToUint32 v))]"

definition uint16_le :: "rat \<Rightarrow> bytes" where
  "uint16_le v = [ucast (ToUint16 v), ucast (drop_bit 8 (ToUint16 v))]"

section \<open>Properties of parseGenders\<close>













lemma js_split_Nil: "js_split [] = [[]]"
  by simp












lemma js_push_ascii:
  "length xs < 4294967295 \<Longrightarrow> js_push ascii_tables xs x = Inr (xs @ [x])"
  by (simp add: js_push_def ascii_tables_def maxArrayLength_def)




















section \<open>Properties of the speaker labels\<close>

text \<open>
  \<open>newSet\<close> keeps each value once, at the place of its first occurrence; \<open>trim\<close>
  leaves no white space at either end.
\<close>

lemma setAdd_in: "x \<in> set seen \<Longrightarrow> setAdd seen x = seen"
  by (simp add: setAdd_def)

lemma setAdd_notin: "x \<notin> set seen \<Longrightarrow> setAdd seen x = seen @ [x]"
  by (simp add: setAdd_def)

lemma foldl_setAdd:
  "foldl setAdd seen xs = seen @ foldl setAdd [] (filter (\<lambda>x. x \<notin> set seen) xs)"
proof (induction xs arbitrary: seen rule: length_induct)
  case (1 xs)
  show ?case
  proof (cases xs)
    case Nil
    then show ?thesis by simp
  next
    case (Cons x ys)
    show ?thesis
    proof (cases "x \<in> set seen")
      case True
      have "foldl setAdd seen ys = seen @ foldl setAdd [] (filter (\<lambda>x. x \<notin> set seen) ys)"
        using 1 Cons by simp
      then show ?thesis using True Cons by (simp add: setAdd_in)
    next
      case False
      have a: "foldl setAdd (seen @ [x]) ys
                 = (seen @ [x]) @ foldl setAdd [] (filter (\<lambda>y. y \<notin> set (seen @ [x])) ys)"
        using 1 Cons by simp
      have "length (filter (\<lambda>y. y \<notin> set seen) ys) < length xs"
        using Cons by (simp add: le_imp_less_Suc)
      then have b: "foldl setAdd [x] (filter (\<lambda>y. y \<notin> set seen) ys)
                 = [x] @ foldl setAdd []
                     (filter (\<lambda>y. y \<notin> set [x]) (filter (\<lambda>y. y \<notin> set seen) ys))"
        using 1 by blast
      have c: "filter (\<lambda>y. y \<notin> set [x]) (filter (\<lambda>y. y \<notin> set seen) ys)
                 = filter (\<lambda>y. y \<notin> set (seen @ [x])) ys"
        by (simp add: conj_commute)
      show ?thesis using False Cons a b c by (simp add: setAdd_in setAdd_notin)
    qed
  qed
qed

lemma newSet_Nil: "newSet [] = []"
  by (simp add: newSet_def)

lemma newSet_Cons: "newSet (x # xs) = x # newSet (filter (\<lambda>y. y \<noteq> x) xs)"
  using foldl_setAdd [of "[x]" xs] by (simp add: newSet_def setAdd_notin)

lemma set_newSet: "set (newSet xs) = set xs"
proof (induction xs rule: length_induct)
  case (1 xs)
  show ?case
  proof (cases xs)
    case Nil
    then show ?thesis by (simp add: newSet_Nil)
  next
    case (Cons x ys)
    have "set (newSet (filter (\<lambda>y. y \<noteq> x) ys)) = set (filter (\<lambda>y. y \<noteq> x) ys)"
      using 1 Cons by (simp add: le_imp_less_Suc)
    then show ?thesis using Cons by (auto simp: newSet_Cons)
  qed
qed

lemma distinct_newSet: "distinct (newSet xs)"
proof (induction xs rule: length_induct)
  case (1 xs)
  show ?case
  proof (cases xs)
    case Nil
    then show ?thesis by (simp add: newSet_Nil)
  next
    case (Cons x ys)
    have "distinct (newSet (filter (\<lambda>y. y \<noteq> x) ys))"
      using 1 Cons by (simp add: le_imp_less_Suc)
    then show ?thesis using Cons by (simp add: newSet_Cons set_newSet)
  qed
qed

lemma length_newSet: "length (newSet xs) = card (set xs)"
  using distinct_card [OF distinct_newSet, of xs] by (simp add: set_newSet)

lemma newSet_pair:
  assumes "newSet xs = [a, b]"
  shows "hd xs = a \<and> hd (filter (\<lambda>y. y \<noteq> a) xs) = b \<and> a \<noteq> b \<and> set xs = {a, b}"
proof -
  obtain x ys where xs: "xs = x # ys"
    using assms by (cases xs) (simp_all add: newSet_Nil)
  have xa: "x = a"
    using assms xs by (simp add: newSet_Cons)
  have r: "newSet (filter (\<lambda>y. y \<noteq> a) ys) = [b]"
    using assms xs xa by (simp add: newSet_Cons)
  obtain z zs where f: "filter (\<lambda>y. y \<noteq> a) ys = z # zs"
    using r by (cases "filter (\<lambda>y. y \<noteq> a) ys") (simp_all add: newSet_Nil)
  have zb: "z = b" using r f by (simp add: newSet_Cons)
  have "set xs = set (newSet xs)" by (simp add: set_newSet)
  then have s: "set xs = {a, b}" using assms by auto
  have "distinct (newSet xs)" by (rule distinct_newSet)
  then have d: "a \<noteq> b" using assms by simp
  show ?thesis using xs xa f zb s d by simp
qed

lemma trim_ends:
  "trim s = [] \<or> (\<not> isWhiteSpace (hd (trim s)) \<and> \<not> isWhiteSpace (last (trim s)))"
proof (cases "trim s = []")
  case True
  then show ?thesis by simp
next
  case False
  define u where "u = dropWhile isWhiteSpace s"
  define v where "v = dropWhile isWhiteSpace (rev u)"
  have t: "trim s = rev v" by (simp add: trim_def u_def v_def)
  have vne: "v \<noteq> []" using False t by simp
  have hv: "\<not> isWhiteSpace (hd v)"
    using vne hd_dropWhile [of isWhiteSpace "rev u"] by (simp add: v_def)
  have "rev u = takeWhile isWhiteSpace (rev u) @ v"
    by (simp add: v_def)
  then have "rev (rev u) = rev (takeWhile isWhiteSpace (rev u) @ v)" by simp
  then have u: "u = rev v @ rev (takeWhile isWhiteSpace (rev u))" by simp
  have une: "u \<noteq> []" using u vne by auto
  have hu: "\<not> isWhiteSpace (hd u)"
    using une hd_dropWhile [of isWhiteSpace s] by (simp add: u_def)
  have "hd u = hd (rev v)" using u vne by (metis hd_append2 rev_is_Nil_conv)
  then have "\<not> isWhiteSpace (hd (trim s))" using hu t by simp
  moreover have "last (trim s) = hd v" using t vne by (simp add: last_rev)
  ultimately show ?thesis using hv by simp
qed

lemma dropWhile_hd_id: "xs \<noteq> [] \<Longrightarrow> \<not> P (hd xs) \<Longrightarrow> dropWhile P xs = xs"
  by (cases xs) simp_all

lemma trim_idem: "trim (trim s) = trim s"
proof (cases "trim s = []")
  case True
  have "trim [] = []" by (simp add: trim_def)
  then show ?thesis using True by simp
next
  case False
  define t where "t = trim s"
  have tne: "t \<noteq> []" using False by (simp add: t_def)
  have h: "\<not> isWhiteSpace (hd t)" and l: "\<not> isWhiteSpace (last t)"
    using trim_ends [of s] False by (simp_all add: t_def)
  have a: "dropWhile isWhiteSpace t = t"
    using tne h by (rule dropWhile_hd_id)
  have "hd (rev t) = last t" using tne by (simp add: hd_rev)
  then have b: "dropWhile isWhiteSpace (rev t) = rev t"
    using tne l by (simp add: dropWhile_hd_id)
  have "trim t = t" using a b by (simp add: trim_def)
  then show ?thesis by (simp add: t_def)
qed

section \<open>Properties of generateSpeech\<close>

lemma speakerVoiceConfigs_not_count:
  "speakerVoiceConfigs M F U script hint \<noteq> Inl (UnsupportedVoiceCount n)"
  by (simp add: speakerVoiceConfigs_def split: sum.splits)

text \<open>
  C10. Every integer count of at most 1, zero and the negative ones included, takes the
  single-voice branch and raises nothing; \<open>generateSpeech\<close> raises its count error exactly
  for the counts from 3 on. The guard that rejects a count below 1 or above 2 is the one
  of \<open>handleGenerateAudio\<close>.
\<close>

theorem generateSpeech_voice_count:
  "(numVoices \<le> 1 \<longrightarrow>
      generateSpeech_config U script numVoices hint = Inr (VoiceConfig (singleVoiceName U hint)))
   \<and> ((\<exists>n. generateSpeech_config U script numVoices hint = Inl (UnsupportedVoiceCount n))
        \<longleftrightarrow> 3 \<le> numVoices)
   \<and> (3 \<le> numVoices \<longrightarrow>
        generateSpeech_config U script numVoices hint = Inl (UnsupportedVoiceCount numVoices))
   \<and> (handleGenerateAudio_guard (Some numVoices) = Some CountBelowOne \<longleftrightarrow> numVoices < 1)
   \<and> (handleGenerateAudio_guard (Some numVoices) = Some CountAboveTwo \<longleftrightarrow> 2 < numVoices)"
proof -
  have a: "numVoices \<le> 1 \<longrightarrow>
      generateSpeech_config U script numVoices hint = Inr (VoiceConfig (singleVoiceName U hint))"
    by (simp add: generateSpeech_config_def)
  have b: "3 \<le> numVoices \<longrightarrow>
        generateSpeech_config U script numVoices hint = Inl (UnsupportedVoiceCount numVoices)"
    by (simp add: generateSpeech_config_def)
  have c: "generateSpeech_config U script numVoices hint \<noteq> Inl (UnsupportedVoiceCount n)"
    if "numVoices < 3" for n
  proof (cases "numVoices \<le> 1")
    case True
    then show ?thesis by (simp add: generateSpeech_config_def)
  next
    case False
    then have "numVoices = 2" using that by simp
    then show ?thesis
      using speakerVoiceConfigs_not_count [of MALE_VOICES FEMALE_VOICES U script hint n]
      by (auto simp: generateSpeech_config_def split: sum.splits)
  qed
  have d: "(\<exists>n. generateSpeech_config U script numVoices hint = Inl (UnsupportedVoiceCount n))
        \<longleftrightarrow> 3 \<le> numVoices"
    using b c by (cases "3 \<le> numVoices") auto
  have e: "handleGenerateAudio_guard (Some numVoices) = Some CountBelowOne \<longleftrightarrow> numVoices < 1"
    by (simp add: handleGenerateAudio_guard_def)
  have f: "handleGenerateAudio_guard (Some numVoices) = Some CountAboveTwo \<longleftrightarrow> 2 < numVoices"
    by (simp add: handleGenerateAudio_guard_def)
  show ?thesis using a b d e f by blast
qed

theorem generateSpeech_voice_count_witness:
  "generateSpeech_config ascii_tables [] 0 [] = Inr (VoiceConfig ''Kore'')
   \<and> generateSpeech_config ascii_tables [] (- 4) [] = Inr (VoiceConfig ''Kore'')
   \<and> generateSpeech_config ascii_tables [] 3 [] = Inl (UnsupportedVoiceCount 3)
   \<and> handleGenerateAudio_guard (Some 0) = Some CountBelowOne
   \<and> handleGenerateAudio_guard (Some 3) = Some CountAboveTwo"
proof -
  have v: "singleVoiceName ascii_tables [] = ''Kore''"
    by (simp add: singleVoiceName_def normalizeHint_def ascii_tables_def ustr_def)
  show ?thesis
    using generateSpeech_voice_count [of 0 ascii_tables "[]" "[]"]
      generateSpeech_voice_count [of "- 4" ascii_tables "[]" "[]"]
      generateSpeech_voice_count [of 3 ascii_tables "[]" "[]"] v
    by simp
qed

lemma woman_tokens:
  "genderParts ascii_tables (ustr ''woman'') = [ustr ''woman'']"
  by (simp add: genderParts_def normalizeHint_def ascii_tables_def lower_ascii_def ustr_def
      isSeparator_def isWhiteSpace_def)

text \<open>
  C5. The single-voice branch looks for nam and man anywhere in the normalised hint, not
  in its tokens. The hint woman is one token, female for \<open>parseGenders\<close> and not male, and
  it contains man: the branch selects the male voice \<open>'Puck'\<close> for it.
\<close>

theorem single_voice_woman:
  "genderParts ascii_tables (ustr ''woman'') = [ustr ''woman'']
   \<and> isFemaleToken (ustr ''woman'') \<and> \<not> isMaleToken (ustr ''woman'')
   \<and> parseGenders ascii_tables (ustr ''woman'') = Inr [''female'']
   \<and> singleVoiceName ascii_tables (ustr ''woman'') = ''Puck''
   \<and> generateSpeech_config ascii_tables (ustr ''Hello'') 1 (ustr ''woman'') = Inr (VoiceConfig ''Puck'')"
proof -
  have t: "isFemaleToken (ustr ''woman'')" "\<not> isMaleToken (ustr ''woman'')"
    by (simp_all add: isFemaleToken_def isMaleToken_def ustr_def startsWith_def)
  have i: "\<not> isPositiveInt (ustr ''woman'')"
    by (simp add: isPositiveInt_def parseInt10_def ustr_def isWhiteSpace_def isDigit_def Let_def)
  have tr: "trim (ustr ''woman'') \<noteq> []"
    by (simp add: trim_def ustr_def isWhiteSpace_def)
  have p: "parseGenders ascii_tables (ustr ''woman'') = Inr [''female'']"
    using t i tr by (simp add: parseGenders_def woman_tokens js_push_ascii andThen_def)
  have v: "singleVoiceName ascii_tables (ustr ''woman'') = ''Puck''"
    by (simp add: singleVoiceName_def normalizeHint_def ascii_tables_def lower_ascii_def
        ustr_def startsWith_def)
  have g: "generateSpeech_config ascii_tables (ustr ''Hello'') 1 (ustr ''woman'') = Inr (VoiceConfig ''Puck'')"
    using v by (simp add: generateSpeech_config_def)
  show ?thesis using woman_tokens t p v g by simp
qed

lemma filter_upt_Suc:
  "filter P [0..<Suc k] = (if P 0 then [0] else []) @ map Suc (filter (\<lambda>j. P (Suc j)) [0..<k])"
proof -
  have "[0..<Suc k] = 0 # map Suc [0..<k]"
    by (simp add: upt_conv_Cons map_Suc_upt del: upt_Suc)
  then show ?thesis by (simp add: filter_map comp_def del: upt_Suc)
qed

lemma mapSpeakers_nth:
  "k < length sps \<Longrightarrow>
   mapSpeakers M F gs idx mi fi sps ! k =
     (sps ! k,
      if genderFor gs (idx + k) = Some ''male''
      then voiceAt M (mi + length (filter (\<lambda>j. genderFor gs (idx + j) = Some ''male'') [0..<k]))
      else voiceAt F (fi + length (filter (\<lambda>j. genderFor gs (idx + j) \<noteq> Some ''male'') [0..<k])))"
proof (induction sps arbitrary: idx mi fi k)
  case Nil
  then show ?case by simp
next
  case (Cons sp sps)
  show ?case
  proof (cases k)
    case 0
    then show ?thesis by simp
  next
    case (Suc k')
    then have k': "k' < length sps" using Cons.prems by simp
    show ?thesis
      using Cons.IH [OF k', of "Suc idx"] Suc
      by (simp add: filter_upt_Suc del: upt_Suc)
  qed
qed

lemma map_fst_mapSpeakers: "map fst (mapSpeakers M F gs idx mi fi sps) = sps"
  by (induction sps arbitrary: idx mi fi) simp_all

lemma speakersOf_matches: "speakersOf script = a # rest \<Longrightarrow> matchAll True script \<noteq> []"
  by (auto simp: speakersOf_def speakerLabels_def newSet_Nil)

lemma voiceAt_two:
  "2 \<le> length pool \<Longrightarrow>
   voiceAt pool 0 = Some (pool ! 0) \<and> voiceAt pool (Suc 0) = Some (pool ! 1)"
  by (auto simp: voiceAt_def)

lemma filter_eq_distinct:
  "distinct xs \<Longrightarrow> x \<in> set xs \<Longrightarrow> length (filter (\<lambda>l. l = x) xs) = 1"
proof (induction xs)
  case Nil
  then show ?case by simp
next
  case (Cons y ys)
  show ?case
  proof (cases "y = x")
    case True
    then have "x \<notin> set ys" using Cons.prems by simp
    then have "filter (\<lambda>l. l = x) ys = []" by (auto simp: filter_empty_conv)
    then show ?thesis using True by simp
  next
    case False
    then show ?thesis using Cons by simp
  qed
qed

lemma same_gender_male:
  assumes "speakersOf script = [a, b]" "parseGenders U hint = Inr [''male'', ''male'']"
    "2 \<le> length M"
  shows "speakerVoiceConfigs M F U script hint = Inr [(a, Some (M ! 0)), (b, Some (M ! 1))]"
  using assms speakersOf_matches [OF assms(1)]
  by (simp add: speakerVoiceConfigs_def genderFor_def voiceAt_two)

lemma same_gender_female:
  assumes "speakersOf script = [a, b]" "parseGenders U hint = Inr [''female'', ''female'']"
    "2 \<le> length F"
  shows "speakerVoiceConfigs M F U script hint = Inr [(a, Some (F ! 0)), (b, Some (F ! 1))]"
  using assms speakersOf_matches [OF assms(1)]
  by (simp add: speakerVoiceConfigs_def genderFor_def voiceAt_two)

lemma distinct_first_two: "distinct pool \<Longrightarrow> 2 \<le> length pool \<Longrightarrow> pool ! 0 \<noteq> pool ! 1"
proof -
  assume d: "distinct pool" and l: "2 \<le> length pool"
  obtain x ys where p: "pool = x # ys" using l by (cases pool) auto
  obtain y zs where q: "ys = y # zs" using l p by (cases ys) auto
  show ?thesis using d p q by simp
qed

lemma speakerVoiceConfigs_errors:
  "speakerVoiceConfigs M F U script hint =
     (if matchAll True script = [] then Inl MissingSpeakerLabels
      else if card (set (speakerLabels script)) \<noteq> 2
        then Inl (SpeakerCountMismatch (card (set (speakerLabels script))))
      else (case parseGenders U hint of
              Inl e \<Rightarrow> Inl (RuntimeFailure e)
            | Inr gs \<Rightarrow>
                if gs \<noteq> [] \<and> length gs \<noteq> 2 then Inl (GenderCountMismatch (length gs))
                else Inr (mapSpeakers M F gs 0 0 0 (speakersOf script))))"
  by (simp add: speakerVoiceConfigs_def speakersOf_def length_newSet split: sum.splits)

lemma empty_hint_no_gender_error:
  "trim hint = [] \<Longrightarrow> speakerVoiceConfigs M F U script hint \<noteq> Inl (GenderCountMismatch n)"
  by (simp add: speakerVoiceConfigs_def parseGenders_def)

text \<open>Evaluation of the model on the scripts and hints of the examples.\<close>

lemmas class_defs = isLabelChar_def isAlnum_def isDigit_def isWhiteSpace_def
  isLineTerminator_def

lemma ustr_script1:
  "ustr ''A: hi\<newline>B: hello\<newline>A: bye''
     = [65, 58, 32, 104, 105, 10, 66, 58, 32, 104, 101, 108, 108, 111, 10, 65, 58, 32, 98, 121, 101]"
  by (simp add: ustr_def)

lemma ustr_labels:
  "ustr ''A'' = [65]" "ustr ''B'' = [66]" "ustr ''A:'' = [65, 58]" "ustr ''A :'' = [65, 32, 58]"
  "ustr ''B:'' = [66, 58]" "ustr ''thanks\<newline>A'' = [116, 104, 97, 110, 107, 115, 10, 65]"
  by (simp_all add: ustr_def)

lemma matchAll_script1:
  "matchAll True [65, 58, 32, 104, 105, 10, 66, 58, 32, 104, 101, 108, 108, 111, 10, 65, 58, 32, 98, 121, 101]
     = [[65, 58], [66, 58], [65, 58]]"
  by (simp add: matchLabelAt_def class_defs)

lemma trim_labels:
  "trim [65] = [65]" "trim [66] = [66]" "trim [65, 32] = [65]"
  "trim [116, 104, 97, 110, 107, 115, 10, 65] = [116, 104, 97, 110, 107, 115, 10, 65]"
  by (simp_all add: trim_def isWhiteSpace_def)

lemma speakersOf_script1:
  "speakersOf (ustr ''A: hi\<newline>B: hello\<newline>A: bye'') = [[65], [66]]"
  by (simp add: speakersOf_def speakerLabels_def ustr_script1 matchAll_script1 trim_labels
      newSet_def setAdd_def del: matchAll.simps)

lemma ustr_2nam: "ustr ''2 nam'' = [50, 32, 110, 97, 109]"
  by (simp add: ustr_def)

lemma parseGenders_2nam: "parseGenders ascii_tables (ustr ''2 nam'') = Inr [''male'', ''male'']"
proof -
  have p: "genderParts ascii_tables [50, 32, 110, 97, 109] = [[50], [110, 97, 109]]"
    by (simp add: genderParts_def normalizeHint_def ascii_tables_def lower_ascii_def
        isSeparator_def isWhiteSpace_def)
  have i: "parseInt10 [50] = Some 2" "parseInt10 [110, 97, 109] = None"
    by (simp_all add: parseInt10_def isWhiteSpace_def isDigit_def digitsValue_def Let_def)
  have m: "isMaleToken [110, 97, 109]"
    by (simp add: isMaleToken_def ustr_def startsWith_def)
  have t: "trim [50, 32, 110, 97, 109] \<noteq> []"
    by (simp add: trim_def isWhiteSpace_def)
  have "pushTimes ascii_tables 2 ''male'' [] = Inr [''male'', ''male'']"
    by (simp add: js_push_ascii andThen_def numeral_2_eq_2)
  then show ?thesis
    using p i m t by (simp add: parseGenders_def ustr_2nam isPositiveInt_def andThen_def)
qed

lemma ustr_script2:
  "ustr ''A: hi\<newline>A : bye\<newline>B: x''
     = [65, 58, 32, 104, 105, 10, 65, 32, 58, 32, 98, 121, 101, 10, 66, 58, 32, 120]"
  by (simp add: ustr_def)

lemma matchAll_script2:
  "matchAll True [65, 58, 32, 104, 105, 10, 65, 32, 58, 32, 98, 121, 101, 10, 66, 58, 32, 120]
     = [[65, 58], [65, 32, 58], [66, 58]]"
  by (simp add: matchLabelAt_def class_defs)

lemma speakersOf_script2:
  "speakersOf (ustr ''A: hi\<newline>A : bye\<newline>B: x'') = [[65], [66]]"
  by (simp add: speakersOf_def speakerLabels_def ustr_script2 matchAll_script2 trim_labels
      newSet_def setAdd_def del: matchAll.simps)

lemma ustr_script3:
  "ustr ''A: hi\<newline>thanks\<newline>A: bye\<newline>B: yo''
     = [65, 58, 32, 104, 105, 10, 116, 104, 97, 110, 107, 115, 10, 65, 58, 32, 98, 121, 101, 10,
        66, 58, 32, 121, 111]"
  by (simp add: ustr_def)

lemma matchAll_script3:
  "matchAll True [65, 58, 32, 104, 105, 10, 116, 104, 97, 110, 107, 115, 10, 65, 58, 32, 98, 121,
        101, 10, 66, 58, 32, 121, 111]
     = [[65, 58], [116, 104, 97, 110, 107, 115, 10, 65, 58], [66, 58]]"
  by (simp add: matchLabelAt_def class_defs)

lemma speakersOf_script3:
  "speakersOf (ustr ''A: hi\<newline>thanks\<newline>A: bye\<newline>B: yo'')
     = [[65], [116, 104, 97, 110, 107, 115, 10, 65], [66]]"
  by (simp add: speakersOf_def speakerLabels_def ustr_script3 matchAll_script3 trim_labels
      newSet_def setAdd_def del: matchAll.simps)

lemma js_lines_script3:
  "js_lines [65, 58, 32, 104, 105, 10, 116, 104, 97, 110, 107, 115, 10, 65, 58, 32, 98, 121,
        101, 10, 66, 58, 32, 121, 111]
     = [[65, 58, 32, 104, 105], [116, 104, 97, 110, 107, 115], [65, 58, 32, 98, 121, 101],
        [66, 58, 32, 121, 111]]"
  by (simp add: isLineTerminator_def)

lemma lineLabel_script3:
  "lineLabel [65, 58, 32, 104, 105] = Some [65]"
  "lineLabel [116, 104, 97, 110, 107, 115] = None"
  "lineLabel [65, 58, 32, 98, 121, 101] = Some [65]"
  "lineLabel [66, 58, 32, 121, 111] = Some [66]"
  by (simp_all add: lineLabel_def isLineLabelChar_def class_defs trim_labels)

lemma lineLabels_script3:
  "lineLabels (ustr ''A: hi\<newline>thanks\<newline>A: bye\<newline>B: yo'') = [[65], [65], [66]]"
  by (simp add: lineLabels_def ustr_script3 js_lines_script3 lineLabel_script3
      List.map_filter_simps del: js_lines.simps)

lemma ustr_script4: "ustr ''A\<newline>: hi'' = [65, 10, 58, 32, 104, 105]"
  by (simp add: ustr_def)

lemma matchAll_script4: "matchAll True [65, 10, 58, 32, 104, 105] = [[65, 10, 58]]"
  by (simp add: matchLabelAt_def class_defs)

lemma lineLabels_script4: "lineLabels (ustr ''A\<newline>: hi'') = []"
  by (simp add: lineLabels_def ustr_script4 lineLabel_def isLineLabelChar_def class_defs
      List.map_filter_simps)

text \<open>
  C7. Within one call the voices are read at two counters, one per gender, both from 0:
  the speaker at position \<open>k\<close> gets the entry of its gender's pool at the number of
  earlier speakers of that gender, modulo the length of the pool. So when both speakers
  of a two-speaker script have the same gender, they get the first two entries of that
  pool in pool order, which differ when the pool has no repetition.
\<close>

theorem voice_rotation:
  "(\<forall>k < length sps.
      mapSpeakers M F gs 0 0 0 sps ! k =
        (sps ! k,
         if genderFor gs k = Some ''male''
         then voiceAt M (length (filter (\<lambda>j. genderFor gs j = Some ''male'') [0..<k]))
         else voiceAt F (length (filter (\<lambda>j. genderFor gs j \<noteq> Some ''male'') [0..<k]))))
   \<and> (\<forall>i. M \<noteq> [] \<longrightarrow> voiceAt M i = Some (M ! (i mod length M)))
   \<and> (speakersOf script = [a, b] \<and> parseGenders U hint = Inr [''male'', ''male'']
          \<and> 2 \<le> length M \<longrightarrow>
        speakerVoiceConfigs M F U script hint = Inr [(a, Some (M ! 0)), (b, Some (M ! 1))])
   \<and> (speakersOf script = [a, b] \<and> parseGenders U hint = Inr [''female'', ''female'']
          \<and> 2 \<le> length F \<longrightarrow>
        speakerVoiceConfigs M F U script hint = Inr [(a, Some (F ! 0)), (b, Some (F ! 1))])
   \<and> (distinct M \<and> 2 \<le> length M \<longrightarrow> M ! 0 \<noteq> M ! 1)
   \<and> (distinct F \<and> 2 \<le> length F \<longrightarrow> F ! 0 \<noteq> F ! 1)"
proof -
  have r: "\<forall>k < length sps.
      mapSpeakers M F gs 0 0 0 sps ! k =
        (sps ! k,
         if genderFor gs k = Some ''male''
         then voiceAt M (length (filter (\<lambda>j. genderFor gs j = Some ''male'') [0..<k]))
         else voiceAt F (length (filter (\<lambda>j. genderFor gs j \<noteq> Some ''male'') [0..<k])))"
    using mapSpeakers_nth [of _ sps M F gs 0 0 0] by simp
  have v: "\<forall>i. M \<noteq> [] \<longrightarrow> voiceAt M i = Some (M ! (i mod length M))"
    by (simp add: voiceAt_def)
  show ?thesis
    using r v same_gender_male [of script a b U hint M F]
      same_gender_female [of script a b U hint F M]
      distinct_first_two [of M] distinct_first_two [of F]
    by blast
qed

theorem voice_rotation_witness:
  "speakerVoiceConfigs MALE_VOICES FEMALE_VOICES ascii_tables
     (ustr ''A: hi\<newline>B: hello\<newline>A: bye'') (ustr ''2 nam'')
     = Inr [(ustr ''A'', Some ''Puck''), (ustr ''B'', Some ''Charon'')]
   \<and> MALE_VOICES ! 0 \<noteq> MALE_VOICES ! 1"
proof -
  have l: "2 \<le> length MALE_VOICES" and d: "distinct MALE_VOICES"
    by (simp_all add: MALE_VOICES_def)
  have v: "MALE_VOICES ! 0 = ''Puck''" "MALE_VOICES ! 1 = ''Charon''"
    by (simp_all add: MALE_VOICES_def)
  show ?thesis
    using voice_rotation [where M = MALE_VOICES and F = FEMALE_VOICES and U = ascii_tables
        and script = "ustr ''A: hi\<newline>B: hello\<newline>A: bye''" and hint = "ustr ''2 nam''"
        and a = "ustr ''A''" and b = "ustr ''B''" and sps = "[]" and gs = "[]"]
      l d v speakersOf_script1 parseGenders_2nam
    by (simp add: ustr_labels)
qed

text \<open>
  On the labels that \<open>generateSpeech\<close> extracts: when they have exactly two distinct values
  and the hint is empty or white space, the first one is paired with \<open>'Puck'\<close>, the first
  male voice, and the other one with \<open>'Kore'\<close>, the first female voice.
\<close>

lemma default_genders:
  assumes "length (speakersOf script) = 2" "trim hint = []"
  shows "generateSpeech_config U script 2 hint =
           Inr (MultiSpeakerVoiceConfig
                  [(speakersOf script ! 0, Some (hd MALE_VOICES)),
                   (speakersOf script ! 1, Some (hd FEMALE_VOICES))])
         \<and> hd MALE_VOICES = ''Puck'' \<and> hd FEMALE_VOICES = ''Kore''
         \<and> parseGenders U hint = Inr []
         \<and> genderFor [] 0 = Some ''male''
         \<and> genderFor [] 1 = Some ''female''
         \<and> speakersOf script ! 0 = hd (speakerLabels script)
         \<and> speakersOf script ! 1
             = hd (filter (\<lambda>l. l \<noteq> hd (speakerLabels script)) (speakerLabels script))
         \<and> speakersOf script ! 0 \<noteq> speakersOf script ! 1"
proof -
  obtain a b where ab: "speakersOf script = [a, b]"
    using assms(1) by (auto simp: length_Suc_conv numeral_2_eq_2)
  have g: "parseGenders U hint = Inr []"
    using assms(2) by (simp add: parseGenders_def)
  have m: "matchAll True script \<noteq> []"
    using ab by (rule speakersOf_matches)
  have c: "speakerVoiceConfigs MALE_VOICES FEMALE_VOICES U script hint
             = Inr [(a, Some ''Puck''), (b, Some ''Kore'')]"
    using ab g m
    by (simp add: speakerVoiceConfigs_def genderFor_def voiceAt_def MALE_VOICES_def
        FEMALE_VOICES_def)
  have o: "hd (speakerLabels script) = a
           \<and> hd (filter (\<lambda>y. y \<noteq> a) (speakerLabels script)) = b \<and> a \<noteq> b
           \<and> set (speakerLabels script) = {a, b}"
    using ab newSet_pair [of "speakerLabels script" a b] by (simp add: speakersOf_def)
  show ?thesis
    using ab g c o
    by (simp add: generateSpeech_config_def genderFor_def MALE_VOICES_def FEMALE_VOICES_def)
qed

text \<open>
  The matches are trimmed before they are put into the set: the speakers are distinct,
  they are the trimmed labels of the matches, each is its own trimmed form with no white
  space at either end, every match contributes to exactly one speaker, and the labels of
  the returned configuration are these speakers.
\<close>

lemma speaker_labels_trimmed:
  "distinct (speakersOf script)
   \<and> set (speakersOf script) = (\<lambda>m. trim (butlast m)) ` set (matchAll True script)
   \<and> (\<forall>l \<in> set (speakersOf script).
         trim l = l \<and> (l \<noteq> [] \<longrightarrow> \<not> isWhiteSpace (hd l) \<and> \<not> isWhiteSpace (last l)))
   \<and> (\<forall>m \<in> set (matchAll True script).
         length (filter (\<lambda>l. l = trim (butlast m)) (speakersOf script)) = 1)
   \<and> (\<forall>cs. speakerVoiceConfigs M F U script hint = Inr cs \<longrightarrow>
         map fst cs = speakersOf script)"
proof -
  have d: "distinct (speakersOf script)"
    by (simp add: speakersOf_def distinct_newSet)
  have s: "set (speakersOf script) = (\<lambda>m. trim (butlast m)) ` set (matchAll True script)"
    by (simp add: speakersOf_def speakerLabels_def set_newSet)
  have t: "\<forall>l \<in> set (speakersOf script).
         trim l = l \<and> (l \<noteq> [] \<longrightarrow> \<not> isWhiteSpace (hd l) \<and> \<not> isWhiteSpace (last l))"
  proof
    fix l assume "l \<in> set (speakersOf script)"
    then obtain m where "l = trim (butlast m)" using s by auto
    then show "trim l = l \<and> (l \<noteq> [] \<longrightarrow> \<not> isWhiteSpace (hd l) \<and> \<not> isWhiteSpace (last l))"
      using trim_idem [of "butlast m"] trim_ends [of "butlast m"] by auto
  qed
  have o: "\<forall>m \<in> set (matchAll True script).
         length (filter (\<lambda>l. l = trim (butlast m)) (speakersOf script)) = 1"
  proof
    fix m assume "m \<in> set (matchAll True script)"
    then have "trim (butlast m) \<in> set (speakersOf script)" using s by auto
    then show "length (filter (\<lambda>l. l = trim (butlast m)) (speakersOf script)) = 1"
      using d by (rule filter_eq_distinct [rotated])
  qed
  have c: "\<forall>cs. speakerVoiceConfigs M F U script hint = Inr cs \<longrightarrow>
         map fst cs = speakersOf script"
    by (auto simp: speakerVoiceConfigs_def map_fst_mapSpeakers split: if_splits sum.splits)
  show ?thesis using d s t o c by blast
qed

text \<open>
  C3. The class of the label in the regular expression is \<open>[a-zA-Z0-9\s]\<close>, and \<open>\s\<close>
  contains the line terminators: a line of letters and spaces only runs on into the label
  of the next line. In the script below the lines that start with a label and a colon
  name the two speakers A and B, and \<open>generateSpeech\<close> finds three and raises the count
  error.
\<close>

theorem label_run_crosses_lines:
  "lineLabels (ustr ''A: hi\<newline>thanks\<newline>A: bye\<newline>B: yo'')
     = [ustr ''A'', ustr ''A'', ustr ''B'']
   \<and> speakersOf (ustr ''A: hi\<newline>thanks\<newline>A: bye\<newline>B: yo'')
       = [ustr ''A'', ustr ''thanks\<newline>A'', ustr ''B'']
   \<and> generateSpeech_config ascii_tables (ustr ''A: hi\<newline>thanks\<newline>A: bye\<newline>B: yo'') 2 []
       = Inl (SpeakerCountMismatch 3)"
proof -
  have m: "matchAll True (ustr ''A: hi\<newline>thanks\<newline>A: bye\<newline>B: yo'') \<noteq> []"
    by (simp add: ustr_script3 matchAll_script3 del: matchAll.simps)
  have "speakerVoiceConfigs MALE_VOICES FEMALE_VOICES ascii_tables
          (ustr ''A: hi\<newline>thanks\<newline>A: bye\<newline>B: yo'') [] = Inl (SpeakerCountMismatch 3)"
    using m by (simp add: speakerVoiceConfigs_def speakersOf_script3)
  then show ?thesis
    by (simp add: generateSpeech_config_def lineLabels_script3 speakersOf_script3 ustr_labels)
qed

text \<open>
  The same run makes a match where no line starts with a label and a colon: the error is
  then the count error, not the one for missing labels.
\<close>

theorem colon_on_next_line:
  "lineLabels (ustr ''A\<newline>: hi'') = []
   \<and> generateSpeech_config ascii_tables (ustr ''A\<newline>: hi'') 2 [] = Inl (SpeakerCountMismatch 1)"
proof -
  have t: "trim [65, 10] = [65]" by (simp add: trim_def isWhiteSpace_def)
  have s: "speakersOf (ustr ''A\<newline>: hi'') = [[65]]"
    by (simp add: speakersOf_def speakerLabels_def ustr_script4 matchAll_script4 t
        newSet_def setAdd_def del: matchAll.simps)
  have m: "matchAll True (ustr ''A\<newline>: hi'') \<noteq> []"
    by (simp add: ustr_script4 matchAll_script4 del: matchAll.simps)
  have "speakerVoiceConfigs MALE_VOICES FEMALE_VOICES ascii_tables (ustr ''A\<newline>: hi'') []
          = Inl (SpeakerCountMismatch 1)"
    using m by (simp add: speakerVoiceConfigs_def s)
  then show ?thesis
    by (simp add: generateSpeech_config_def lineLabels_script4)
qed

lemma ustr_script5:
  "ustr ''intro\<newline>A: hi\<newline>B: yo''
     = [105, 110, 116, 114, 111, 10, 65, 58, 32, 104, 105, 10, 66, 58, 32, 121, 111]"
  by (simp add: ustr_def)

lemma ustr_script6:
  "ustr ''A: hi\<newline>ok\<newline>B: yo''
     = [65, 58, 32, 104, 105, 10, 111, 107, 10, 66, 58, 32, 121, 111]"
  by (simp add: ustr_def)

lemma ustr_script7:
  "ustr ''A: hi\<newline>ok\<newline> A: bye\<newline>B: x''
     = [65, 58, 32, 104, 105, 10, 111, 107, 10, 32, 65, 58, 32, 98, 121, 101, 10, 66, 58, 32, 120]"
  by (simp add: ustr_def)

lemma ustr_labels2:
  "ustr ''intro\<newline>A'' = [105, 110, 116, 114, 111, 10, 65]"
  "ustr ''ok\<newline>B'' = [111, 107, 10, 66]"
  "ustr ''ok\<newline> A'' = [111, 107, 10, 32, 65]"
  by (simp_all add: ustr_def)

lemma matchAll_script5:
  "matchAll True [105, 110, 116, 114, 111, 10, 65, 58, 32, 104, 105, 10, 66, 58, 32, 121, 111]
     = [[105, 110, 116, 114, 111, 10, 65, 58], [66, 58]]"
  by (simp add: matchLabelAt_def class_defs)

lemma matchAll_script6:
  "matchAll True [65, 58, 32, 104, 105, 10, 111, 107, 10, 66, 58, 32, 121, 111]
     = [[65, 58], [111, 107, 10, 66, 58]]"
  by (simp add: matchLabelAt_def class_defs)

lemma matchAll_script7:
  "matchAll True
     [65, 58, 32, 104, 105, 10, 111, 107, 10, 32, 65, 58, 32, 98, 121, 101, 10, 66, 58, 32, 120]
     = [[65, 58], [111, 107, 10, 32, 65, 58], [66, 58]]"
  by (simp add: matchLabelAt_def class_defs)

lemma trim_labels2:
  "trim [105, 110, 116, 114, 111, 10, 65] = [105, 110, 116, 114, 111, 10, 65]"
  "trim [111, 107, 10, 66] = [111, 107, 10, 66]"
  "trim [111, 107, 10, 32, 65] = [111, 107, 10, 32, 65]"
  "trim [32, 65] = [65]"
  by (simp_all add: trim_def isWhiteSpace_def)

lemma speakersOf_script5:
  "speakersOf (ustr ''intro\<newline>A: hi\<newline>B: yo'') = [[105, 110, 116, 114, 111, 10, 65], [66]]"
  by (simp add: speakersOf_def speakerLabels_def ustr_script5 matchAll_script5 trim_labels
      trim_labels2 newSet_def setAdd_def del: matchAll.simps)

lemma speakersOf_script6:
  "speakersOf (ustr ''A: hi\<newline>ok\<newline>B: yo'') = [[65], [111, 107, 10, 66]]"
  by (simp add: speakersOf_def speakerLabels_def ustr_script6 matchAll_script6 trim_labels
      trim_labels2 newSet_def setAdd_def del: matchAll.simps)

lemma speakersOf_script7:
  "speakersOf (ustr ''A: hi\<newline>ok\<newline> A: bye\<newline>B: x'')
     = [[65], [111, 107, 10, 32, 65], [66]]"
  by (simp add: speakersOf_def speakerLabels_def ustr_script7 matchAll_script7 trim_labels
      trim_labels2 newSet_def setAdd_def del: matchAll.simps)

lemma lineLabels_script5:
  "lineLabels (ustr ''intro\<newline>A: hi\<newline>B: yo'') = [[65], [66]]"
  by (simp add: lineLabels_def ustr_script5 lineLabel_def isLineLabelChar_def class_defs
      trim_labels List.map_filter_simps)

lemma lineLabels_script6:
  "lineLabels (ustr ''A: hi\<newline>ok\<newline>B: yo'') = [[65], [66]]"
  by (simp add: lineLabels_def ustr_script6 lineLabel_def isLineLabelChar_def class_defs
      trim_labels List.map_filter_simps)

lemma lineLabels_script7:
  "lineLabels (ustr ''A: hi\<newline>ok\<newline> A: bye\<newline>B: x'') = [[65], [65], [66]]"
  by (simp add: lineLabels_def ustr_script7 lineLabel_def isLineLabelChar_def class_defs
      trim_labels trim_labels2 List.map_filter_simps)

lemma default_voices:
  assumes "speakersOf script = [a, b]"
  shows "generateSpeech_config ascii_tables script 2 []
           = Inr (MultiSpeakerVoiceConfig [(a, Some ''Puck''), (b, Some ''Kore'')])"
proof -
  have m: "matchAll True script \<noteq> []" using assms by (rule speakersOf_matches)
  have g: "parseGenders ascii_tables [] = Inr []" by (simp add: parseGenders_def trim_def)
  have "speakerVoiceConfigs MALE_VOICES FEMALE_VOICES ascii_tables script []
          = Inr [(a, Some ''Puck''), (b, Some ''Kore'')]"
    using assms m g
    by (simp add: speakerVoiceConfigs_def genderFor_def voiceAt_def MALE_VOICES_def
        FEMALE_VOICES_def)
  then show ?thesis by (simp add: generateSpeech_config_def)
qed

text \<open>
  C6. The first line of the script below is no label line; the label lines name the two
  speakers A and B, in this order, and the hint is empty. \<open>generateSpeech\<close> pairs the first
  male voice with a speaker whose name is the first line, the line break and A, because
  the run of the label class goes through the line break. In the second script the same
  happens to the second speaker.
\<close>

theorem default_speaker_takes_previous_line:
  "lineLabels (ustr ''intro\<newline>A: hi\<newline>B: yo'') = [ustr ''A'', ustr ''B'']
   \<and> generateSpeech_config ascii_tables (ustr ''intro\<newline>A: hi\<newline>B: yo'') 2 []
       = Inr (MultiSpeakerVoiceConfig
                [(ustr ''intro\<newline>A'', Some ''Puck''), (ustr ''B'', Some ''Kore'')])
   \<and> lineLabels (ustr ''A: hi\<newline>ok\<newline>B: yo'') = [ustr ''A'', ustr ''B'']
   \<and> generateSpeech_config ascii_tables (ustr ''A: hi\<newline>ok\<newline>B: yo'') 2 []
       = Inr (MultiSpeakerVoiceConfig
                [(ustr ''A'', Some ''Puck''), (ustr ''ok\<newline>B'', Some ''Kore'')])"
  by (simp add: lineLabels_script5 lineLabels_script6 default_voices [OF speakersOf_script5]
      default_voices [OF speakersOf_script6] ustr_labels ustr_labels2)

text \<open>
  C9. In the script below the label lines are those of A, of A with a space before it, and
  of B: two speakers once the labels are trimmed and the repeated one is counted once.
  \<open>generateSpeech\<close> finds three, because the second label of A is matched together with
  the line before it, and raises the count error.
\<close>

theorem trimmed_label_takes_previous_line:
  "lineLabels (ustr ''A: hi\<newline>ok\<newline> A: bye\<newline>B: x'') = [ustr ''A'', ustr ''A'', ustr ''B'']
   \<and> newSet (lineLabels (ustr ''A: hi\<newline>ok\<newline> A: bye\<newline>B: x'')) = [ustr ''A'', ustr ''B'']
   \<and> speakersOf (ustr ''A: hi\<newline>ok\<newline> A: bye\<newline>B: x'')
       = [ustr ''A'', ustr ''ok\<newline> A'', ustr ''B'']
   \<and> generateSpeech_config ascii_tables (ustr ''A: hi\<newline>ok\<newline> A: bye\<newline>B: x'') 2 []
       = Inl (SpeakerCountMismatch 3)"
proof -
  have m: "matchAll True (ustr ''A: hi\<newline>ok\<newline> A: bye\<newline>B: x'') \<noteq> []"
    by (simp add: ustr_script7 matchAll_script7 del: matchAll.simps)
  have "speakerVoiceConfigs MALE_VOICES FEMALE_VOICES ascii_tables
          (ustr ''A: hi\<newline>ok\<newline> A: bye\<newline>B: x'') [] = Inl (SpeakerCountMismatch 3)"
    using m by (simp add: speakerVoiceConfigs_def speakersOf_script7)
  then show ?thesis
    by (simp add: generateSpeech_config_def lineLabels_script7 speakersOf_script7 ustr_labels
        ustr_labels2 newSet_def setAdd_def)
qed

section \<open>Properties of the rounding\<close>

text \<open>
  Three facts about the rounding carry the results on the encoder: a whole number up to
  \<open>2 ^ 53\<close> is a double, a value of at least \<open>2 ^ 53\<close> rounds to one of at least \<open>2 ^ 53\<close> or
  to infinity, and a value that is not negative rounds to one that is not negative.
\<close>

lemma bitLength_bounds: "0 < n \<Longrightarrow> 2 ^ (bitLength n - 1) \<le> n \<and> n < 2 ^ bitLength n"
proof (induction n rule: bitLength.induct)
  case (1 n)
  show ?case
  proof (cases "n div 2 = 0")
    case True
    then have "n = 1" using 1(2) by (cases n) auto
    then show ?thesis by simp
  next
    case False
    then have ih: "2 ^ (bitLength (n div 2) - 1) \<le> n div 2 \<and> n div 2 < 2 ^ bitLength (n div 2)"
      using 1 by simp
    have b: "0 < bitLength (n div 2)" using False by simp
    have s: "bitLength n = Suc (bitLength (n div 2))" using 1(2) by simp
    have "2 * 2 ^ (bitLength (n div 2) - 1) \<le> n" using ih by linarith
    moreover have "2 * 2 ^ (bitLength (n div 2) - 1) = (2::nat) ^ bitLength (n div 2)"
      using b by (cases "bitLength (n div 2)") simp_all
    moreover have "n < 2 * 2 ^ bitLength (n div 2)" using ih by linarith
    ultimately show ?thesis using s by simp
  qed
qed

lemma pow2_pos: "0 < pow2 k"
  by (simp add: pow2_def)

lemma floorLog2_bounds:
  assumes "1 \<le> x"
  shows "0 \<le> floorLog2 x \<and> pow2 (floorLog2 x) \<le> x \<and> x < pow2 (floorLog2 x + 1)"
proof -
  define n where "n = nat \<lfloor>x\<rfloor>"
  have fl: "1 \<le> \<lfloor>x\<rfloor>" using assms by simp
  then have n: "0 < n" by (simp add: n_def)
  have e: "floorLog2 x = int (bitLength n) - 1"
    using assms by (simp add: floorLog2_def n_def)
  have bl: "0 < bitLength n" using n by simp
  have b: "2 ^ (bitLength n - 1) \<le> n" "n < 2 ^ bitLength n"
    using bitLength_bounds [OF n] by simp_all
  have ne: "nat (floorLog2 x) = bitLength n - 1" "nat (floorLog2 x + 1) = bitLength n"
    using e bl by simp_all
  have nx: "rat_of_nat n \<le> x"
    using fl by (simp add: n_def of_nat_nat)
  have xn: "x < rat_of_nat n + 1"
    using fl floor_correct [of x] by (simp add: n_def of_nat_nat)
  have p1: "pow2 (floorLog2 x) = 2 ^ (bitLength n - 1)"
    using e bl ne(1) by (simp add: pow2_def)
  have p2: "pow2 (floorLog2 x + 1) = 2 ^ bitLength n"
    using e bl ne(2) by (simp add: pow2_def)
  have "rat_of_nat (2 ^ (bitLength n - 1)) \<le> rat_of_nat n"
    using b(1) by (rule of_nat_mono)
  then have "(2::rat) ^ (bitLength n - 1) \<le> rat_of_nat n"
    by simp
  then have lo: "pow2 (floorLog2 x) \<le> x"
    using nx p1 by linarith
  have "Suc n \<le> 2 ^ bitLength n"
    using b(2) by simp
  then have "rat_of_nat (Suc n) \<le> rat_of_nat (2 ^ bitLength n)"
    by (rule of_nat_mono)
  then have "rat_of_nat n + 1 \<le> 2 ^ bitLength n"
    by simp
  then have hi: "x < pow2 (floorLog2 x + 1)"
    using xn p2 by linarith
  have "0 \<le> floorLog2 x" using e bl by simp
  then show ?thesis using lo hi by simp
qed

lemma roundHalfEven_of_int: "roundHalfEven (of_int j) = j"
  by (simp add: roundHalfEven_def)

lemma roundHalfEven_ge_floor: "\<lfloor>m\<rfloor> \<le> roundHalfEven m"
  by (simp add: roundHalfEven_def Let_def)

lemma roundPositive_int_exact:
  assumes "1 \<le> k" "k \<le> 2 ^ 53"
  shows "roundPositive (of_int k) = Finite (of_int k)"
proof -
  define x :: rat where "x = of_int k"
  define e where "e = floorLog2 x"
  have x1: "1 \<le> x" using assms(1) by (simp add: x_def)
  have xu: "x \<le> 2 ^ 53"
  proof -
    have "rat_of_int k \<le> rat_of_int (2 ^ 53)" using assms(2) by (simp only: of_int_le_iff)
    then show ?thesis by (simp add: x_def)
  qed
  have b: "0 \<le> e" "pow2 e \<le> x" "x < pow2 (e + 1)"
    using floorLog2_bounds [OF x1] by (simp_all add: e_def)
  have pe: "pow2 e = 2 ^ nat e" using b(1) by (simp add: pow2_def)
  have "(2::rat) ^ nat e \<le> 2 ^ 53" using b(2) xu pe by linarith
  then have "nat e \<le> 53" by (rule power_le_imp_le_exp [rotated]) simp
  then have e53: "e \<le> 53" by simp
  have mx: "max e (- 1022) = e" using b(1) by simp
  have big: "\<not> pow2 1024 \<le> x"
  proof -
    have "(2::rat) ^ 53 < 2 ^ 1024" by (rule power_strict_increasing) simp_all
    then show ?thesis using xu by (simp add: pow2_def)
  qed
  have r: "of_int (roundHalfEven (x / pow2 (e - 52))) * pow2 (e - 52) = x"
  proof (cases "e \<le> 52")
    case True
    define m where "m = nat (52 - e)"
    have ulp: "pow2 (e - 52) = 1 / 2 ^ m"
    proof (cases "e = 52")
      case True
      then show ?thesis by (simp add: pow2_def m_def)
    next
      case False
      then have "e - 52 < 0" using \<open>e \<le> 52\<close> by simp
      then show ?thesis by (simp add: pow2_def m_def)
    qed
    have "x / pow2 (e - 52) = of_int (k * 2 ^ m)"
      by (simp add: ulp x_def)
    then have "roundHalfEven (x / pow2 (e - 52)) = k * 2 ^ m"
      by (simp only: roundHalfEven_of_int)
    then show ?thesis by (simp add: ulp x_def)
  next
    case False
    then have e: "e = 53" using e53 by simp
    have "(2::rat) ^ 53 \<le> x" using b(2) pe e by simp
    then have x53: "x = 2 ^ 53" using xu by simp
    have ulp: "pow2 (e - 52) = 2" by (simp add: e pow2_def)
    have "x / pow2 (e - 52) = of_int (2 ^ 52)" by (simp add: ulp x53)
    then have "roundHalfEven (x / pow2 (e - 52)) = 2 ^ 52"
      by (simp only: roundHalfEven_of_int)
    then show ?thesis by (simp add: ulp x53)
  qed
  show ?thesis
    using mx r big unfolding roundPositive_def Let_def x_def [symmetric] e_def [symmetric]
    by simp
qed

lemma roundPositive_big:
  assumes "2 ^ 53 \<le> x"
  shows "roundPositive x = PosInfinity \<or> (\<exists>r. roundPositive x = Finite r \<and> 2 ^ 53 \<le> r)"
proof -
  define e where "e = floorLog2 x"
  have x1: "1 \<le> x"
  proof -
    have "(1::rat) \<le> 2 ^ 53" by simp
    then show ?thesis using assms by linarith
  qed
  have b: "0 \<le> e" "pow2 e \<le> x" "x < pow2 (e + 1)"
    using floorLog2_bounds [OF x1] by (simp_all add: e_def)
  have "pow2 (e + 1) = 2 ^ nat (e + 1)" using b(1) by (simp add: pow2_def)
  then have "(2::rat) ^ 53 < 2 ^ nat (e + 1)" using b(3) assms by linarith
  then have "53 < nat (e + 1)" by (rule power_less_imp_less_exp [rotated]) simp
  then have e53: "53 \<le> e" by simp
  define a where "a = nat (e - 52)"
  have ne: "nat e = a + 52" using e53 by (simp add: a_def)
  have a1: "1 \<le> a" using e53 by (simp add: a_def)
  have mx: "max e (- 1022) = e" using b(1) by simp
  have ulp: "pow2 (e - 52) = 2 ^ a" using e53 by (simp add: pow2_def a_def)
  have pe: "pow2 e = 2 ^ a * 2 ^ 52" using b(1) ne by (simp add: pow2_def power_add)
  have up: "(0::rat) < 2 ^ a" by simp
  have u2: "(2::rat) \<le> 2 ^ a"
    using power_increasing [of 1 a "2::rat"] a1 by simp
  have "2 ^ 52 * 2 ^ a \<le> x" using b(2) pe by (simp add: mult.commute)
  then have m: "2 ^ 52 \<le> x / 2 ^ a" using up by (simp add: pos_le_divide_eq)
  have "rat_of_int (2 ^ 52) \<le> x / 2 ^ a" using m by simp
  then have "2 ^ 52 \<le> \<lfloor>x / 2 ^ a\<rfloor>" by (simp only: le_floor_iff)
  then have n: "2 ^ 52 \<le> roundHalfEven (x / 2 ^ a)"
    using roundHalfEven_ge_floor [of "x / 2 ^ a"] by linarith
  then have "rat_of_int (2 ^ 52) \<le> rat_of_int (roundHalfEven (x / 2 ^ a))"
    by (simp only: of_int_le_iff)
  then have n': "2 ^ 52 \<le> rat_of_int (roundHalfEven (x / 2 ^ a))" by simp
  have "(0::rat) \<le> 2 ^ 52" by simp
  then have nn: "0 \<le> rat_of_int (roundHalfEven (x / 2 ^ a))" using n' by linarith
  have "2 ^ 52 * 2 \<le> rat_of_int (roundHalfEven (x / 2 ^ a)) * 2 ^ a"
    using mult_mono [OF n' u2 nn] by simp
  then have r: "2 ^ 53 \<le> rat_of_int (roundHalfEven (x / 2 ^ a)) * 2 ^ a" by simp
  show ?thesis
    using mx r ulp unfolding roundPositive_def Let_def e_def [symmetric]
    by simp
qed

lemma roundPositive_nonneg:
  assumes "0 < x"
  shows "roundPositive x = PosInfinity \<or> (\<exists>r. roundPositive x = Finite r \<and> 0 \<le> r)"
proof -
  define u where "u = pow2 (max (floorLog2 x) (- 1022) - 52)"
  have up: "0 < u" by (simp add: u_def pow2_pos)
  then have "0 \<le> x / u" using assms by simp
  then have "0 \<le> \<lfloor>x / u\<rfloor>" by simp
  then have "0 \<le> roundHalfEven (x / u)"
    using roundHalfEven_ge_floor [of "x / u"] by linarith
  then have "0 \<le> rat_of_int (roundHalfEven (x / u)) * u" using up by simp
  then show ?thesis
    unfolding roundPositive_def Let_def u_def [symmetric] by simp
qed

lemma roundToDouble_int_exact:
  assumes "0 \<le> k" "k \<le> 2 ^ 53"
  shows "roundToDouble (of_int k) = Finite (of_int k)"
proof (cases "k = 0")
  case True
  then show ?thesis by (simp add: roundToDouble_def)
next
  case False
  then have "1 \<le> k" using assms(1) by simp
  then show ?thesis
    using roundPositive_int_exact [of k] assms(2) by (simp add: roundToDouble_def)
qed

lemma roundToDouble_big:
  assumes "2 ^ 53 \<le> x"
  shows "roundToDouble x = PosInfinity \<or> (\<exists>r. roundToDouble x = Finite r \<and> 2 ^ 53 \<le> r)"
proof -
  have "(0::rat) < 2 ^ 53" by simp
  then have "0 < x" using assms by linarith
  then show ?thesis
    using roundPositive_big [OF assms] by (simp add: roundToDouble_def)
qed

lemma roundToDouble_nonneg:
  assumes "0 \<le> x"
  shows "roundToDouble x = PosInfinity \<or> (\<exists>r. roundToDouble x = Finite r \<and> 0 \<le> r)"
proof (cases "x = 0")
  case True
  then show ?thesis by (simp add: roundToDouble_def)
next
  case False
  then have "0 < x" using assms by simp
  then show ?thesis
    using roundPositive_nonneg [of x] by (simp add: roundToDouble_def)
qed

section \<open>Properties of createWavFile\<close>

text \<open>
  The bytes that the writes of a \<open>DataView\<close> store for a natural number are its little-endian
  bytes; the thirteen writes of the header fill the first 44 bytes of the buffer and leave
  the rest. \<open>createWavFile\<close> fails only where the runtime refuses its one buffer.
\<close>

lemma take_drop_take_bit:
  "n + 8 \<le> m \<Longrightarrow> take_bit 8 (drop_bit n (take_bit m (v::nat))) = take_bit 8 (drop_bit n v)"
  by (rule bit_eqI) (auto simp: bit_take_bit_iff bit_drop_bit_eq)

lemma byte_of_uint32:
  assumes "n + 8 \<le> 32"
  shows "(ucast (drop_bit n (word_of_nat v :: 32 word)) :: 8 word) = word_of_nat (v div 2 ^ n mod 256)"
proof -
  have "unat (ucast (drop_bit n (word_of_nat v :: 32 word)) :: 8 word)
          = take_bit 8 (drop_bit n (take_bit 32 v))"
    by (simp add: unsigned_ucast_eq unat_drop_bit_eq unat_of_nat take_bit_eq_mod)
  also have "\<dots> = take_bit 8 (drop_bit n v)"
    using assms by (rule take_drop_take_bit)
  also have "\<dots> = unat (word_of_nat (v div 2 ^ n mod 256) :: 8 word)"
    by (simp add: unat_of_nat take_bit_eq_mod drop_bit_eq_div)
  finally show ?thesis by (simp only: word_unat_eq_iff)
qed

lemma byte_of_uint16:
  assumes "n + 8 \<le> 16"
  shows "(ucast (drop_bit n (word_of_nat v :: 16 word)) :: 8 word) = word_of_nat (v div 2 ^ n mod 256)"
proof -
  have "unat (ucast (drop_bit n (word_of_nat v :: 16 word)) :: 8 word)
          = take_bit 8 (drop_bit n (take_bit 16 v))"
    by (simp add: unsigned_ucast_eq unat_drop_bit_eq unat_of_nat take_bit_eq_mod)
  also have "\<dots> = take_bit 8 (drop_bit n v)"
    using assms by (rule take_drop_take_bit)
  also have "\<dots> = unat (word_of_nat (v div 2 ^ n mod 256) :: 8 word)"
    by (simp add: unat_of_nat take_bit_eq_mod drop_bit_eq_div)
  finally show ?thesis by (simp only: word_unat_eq_iff)
qed

lemma truncate_of_nat: "truncate (of_nat v) = int v"
  by (simp add: truncate_def)

lemma ToUint32_of_nat: "ToUint32 (of_nat v) = word_of_nat v"
  by (simp add: ToUint32_def truncate_of_nat)

lemma ToUint16_of_nat: "ToUint16 (of_nat v) = word_of_nat v"
  by (simp add: ToUint16_def truncate_of_nat)

lemma nested_div:
  "(v::nat) div 65536 = v div 256 div 256" "v div 16777216 = v div 256 div 256 div 256"
  by (simp_all add: div_mult2_eq [symmetric])

lemma le_bytes_4:
  "le_bytes 4 v = [word_of_nat (v mod 256), word_of_nat (v div 256 mod 256),
                   word_of_nat (v div 65536 mod 256), word_of_nat (v div 16777216 mod 256)]"
proof -
  have n: "(4::nat) = Suc (Suc (Suc (Suc 0)))" by simp
  show ?thesis unfolding n by (simp add: nested_div)
qed

lemma le_bytes_2: "le_bytes 2 v = [word_of_nat (v mod 256), word_of_nat (v div 256 mod 256)]"
proof -
  have n: "(2::nat) = Suc (Suc 0)" by simp
  show ?thesis unfolding n by simp
qed

lemma uint32_bytes:
  "[ucast (ToUint32 (of_nat v)), ucast (drop_bit 8 (ToUint32 (of_nat v))),
    ucast (drop_bit 16 (ToUint32 (of_nat v))), ucast (drop_bit 24 (ToUint32 (of_nat v)))]
     = le_bytes 4 v"
  using byte_of_uint32 [of 0 v] byte_of_uint32 [of 8 v] byte_of_uint32 [of 16 v]
    byte_of_uint32 [of 24 v]
  by (simp add: ToUint32_of_nat le_bytes_4)

lemma uint16_bytes:
  "[ucast (ToUint16 (of_nat v)), ucast (drop_bit 8 (ToUint16 (of_nat v)))] = le_bytes 2 v"
  using byte_of_uint16 [of 0 v] byte_of_uint16 [of 8 v]
  by (simp add: ToUint16_of_nat le_bytes_2)

lemma replicate_44:
  "replicate 44 x = [x, x, x, x, x, x, x, x, x, x, x, x, x, x, x, x, x, x, x, x, x, x,
                     x, x, x, x, x, x, x, x, x, x, x, x, x, x, x, x, x, x, x, x, x, x]"
  by (simp add: numeral_eq_Suc)

lemma header_writes:
  "runWrites
     [writeString 0 ''RIFF'', setUint32 4 a, writeString 8 ''WAVE'', writeString 12 ''fmt '',
      setUint32 16 b, setUint16 20 c, setUint16 22 d, setUint32 24 e, setUint32 28 f,
      setUint16 32 g, setUint16 34 h, writeString 36 ''data'', setUint32 40 i]
     (replicate 44 0 @ R)
   = Inr (ascii ''RIFF'' @ uint32_le a @ ascii ''WAVE'' @ ascii ''fmt '' @ uint32_le b
          @ uint16_le c @ uint16_le d @ uint32_le e @ uint32_le f @ uint16_le g @ uint16_le h
          @ ascii ''data'' @ uint32_le i @ R)"
  by (simp add: replicate_44 andThen_def setUint8_def setUint32_def setUint16_def ascii_def
      uint32_le_def uint16_le_def)

lemma typedArraySet_prefix:
  "length h = off \<Longrightarrow> length r = length src \<Longrightarrow> typedArraySet (h @ r) src off = Inr (h @ src)"
  by (simp add: typedArraySet_def)

lemma uint32_le_of_nat: "uint32_le (of_nat v) = le_bytes 4 v"
  using uint32_bytes [of v] by (simp add: uint32_le_def)

lemma uint16_le_of_nat: "uint16_le (of_nat v) = le_bytes 2 v"
  using uint16_bytes [of v] by (simp add: uint16_le_def)

lemma length_le_bytes: "length (le_bytes k v) = k"
  by (induction k arbitrary: v) simp_all

lemma length_ascii: "length (ascii s) = length s"
  by (simp add: ascii_def)

lemma length_wavHeader: "length (wavHeader n sr nc bps) = 44"
  by (simp add: wavHeader_def length_le_bytes length_ascii)

lemma eighth_of_multiple:
  assumes "8 dvd bps"
  shows "rat_of_nat bps / 8 = rat_of_nat (bps div 8)"
proof -
  obtain k where k: "bps = 8 * k" using assms by (auto simp: dvd_def)
  show ?thesis by (simp add: k)
qed

lemma createWavFile_layout:
  assumes "8 dvd bitsPerSample"
  shows "createWavFile A pcmData sampleRate numChannels bitsPerSample h
           = (case constructAll A [length pcmData + 44] h of
                None \<Rightarrow> Inl RangeError
              | Some h' \<Rightarrow>
                  Inr (wavHeader (length pcmData) sampleRate numChannels bitsPerSample @ pcmData,
                       h'))"
proof (cases "constructAll A [length pcmData + 44] h")
  case None
  then have "newArrayBuffer A (length pcmData + 44) h = Inl RangeError"
    by (auto simp: newArrayBuffer_def createByteDataBlock_def split: if_splits option.splits)
  then show ?thesis using None by (simp add: createWavFile_def andThen_def)
next
  case (Some h')
  define n where "n = length pcmData"
  define R :: bytes where "R = replicate n 0"
  have buf: "newArrayBuffer A (n + 44) h = Inr (replicate 44 0 @ R, h')"
    using Some
    by (auto simp: newArrayBuffer_def createByteDataBlock_def n_def R_def
        replicate_add [symmetric] add.commute split: if_splits option.splits)
  have v1: "rat_of_nat (n + 44) - 8 = rat_of_nat (n + 36)" by simp
  have v2: "rat_of_nat sampleRate * rat_of_nat numChannels * (rat_of_nat bitsPerSample / 8)
              = rat_of_nat (sampleRate * numChannels * (bitsPerSample div 8))"
    by (simp add: eighth_of_multiple [OF assms(1)])
  have v3: "rat_of_nat numChannels * (rat_of_nat bitsPerSample / 8)
              = rat_of_nat (numChannels * (bitsPerSample div 8))"
    by (simp add: eighth_of_multiple [OF assms(1)])
  have v4: "(16::rat) = rat_of_nat 16" "(1::rat) = rat_of_nat 1" by simp_all
  define H where "H = wavHeader n sampleRate numChannels bitsPerSample"
  have w: "runWrites
     [writeString 0 ''RIFF'', setUint32 4 (rat_of_nat (n + 44) - 8), writeString 8 ''WAVE'',
      writeString 12 ''fmt '', setUint32 16 16, setUint16 20 1,
      setUint16 22 (rat_of_nat numChannels), setUint32 24 (rat_of_nat sampleRate),
      setUint32 28 (rat_of_nat sampleRate * rat_of_nat numChannels * (rat_of_nat bitsPerSample / 8)),
      setUint16 32 (rat_of_nat numChannels * (rat_of_nat bitsPerSample / 8)),
      setUint16 34 (rat_of_nat bitsPerSample), writeString 36 ''data'',
      setUint32 40 (rat_of_nat n)]
     (replicate 44 0 @ R) = Inr (H @ R)"
    unfolding header_writes v1 v2 v3
    unfolding v4 uint32_le_of_nat uint16_le_of_nat
    by (simp add: H_def wavHeader_def add.commute)
  have hl: "length H = 44" by (simp add: H_def length_wavHeader)
  have t: "typedArraySet (H @ R) pcmData 44 = Inr (H @ pcmData)"
    using hl by (simp add: typedArraySet_prefix R_def n_def)
  have "createWavFile A pcmData sampleRate numChannels bitsPerSample h = Inr (H @ pcmData, h')"
    unfolding createWavFile_def Let_def n_def [symmetric]
    by (simp only: buf w t andThen_def sum.case prod.case)
  then show ?thesis using Some by (simp add: H_def n_def)
qed

lemma le_value_le_bytes: "le_value (le_bytes k v) = v mod 256 ^ k"
proof (induction k arbitrary: v)
  case 0
  show ?case by (simp add: le_value_def)
next
  case (Suc k)
  have u: "unat (word_of_nat (v mod 256) :: 8 word) = v mod 256"
    by (simp add: unat_of_nat)
  have "le_value (le_bytes (Suc k) v) = v mod 256 + 256 * le_value (le_bytes k (v div 256))"
    by (simp add: le_value_def u)
  also have "\<dots> = v mod 256 + 256 * (v div 256 mod 256 ^ k)"
    by (simp add: Suc.IH)
  also have "\<dots> = v mod 256 ^ Suc k"
    by (simp add: mod_mult2_eq)
  finally show ?case .
qed

lemma le_value_fits: "v < 256 ^ k \<Longrightarrow> le_value (le_bytes k v) = v"
  by (simp add: le_value_le_bytes)

lemma header_fields:
  "take 4 (wavHeader n sr nc bps) = ascii ''RIFF''"
  "take 4 (drop 4 (wavHeader n sr nc bps)) = le_bytes 4 (n + 44 - 8)"
  "take 4 (drop 8 (wavHeader n sr nc bps)) = ascii ''WAVE''"
  "take 4 (drop 12 (wavHeader n sr nc bps)) = ascii ''fmt ''"
  "take 4 (drop 16 (wavHeader n sr nc bps)) = le_bytes 4 16"
  "take 2 (drop 20 (wavHeader n sr nc bps)) = le_bytes 2 1"
  "take 2 (drop 22 (wavHeader n sr nc bps)) = le_bytes 2 nc"
  "take 4 (drop 24 (wavHeader n sr nc bps)) = le_bytes 4 sr"
  "take 4 (drop 28 (wavHeader n sr nc bps)) = le_bytes 4 (sr * nc * (bps div 8))"
  "take 2 (drop 32 (wavHeader n sr nc bps)) = le_bytes 2 (nc * (bps div 8))"
  "take 2 (drop 34 (wavHeader n sr nc bps)) = le_bytes 2 bps"
  "take 4 (drop 36 (wavHeader n sr nc bps)) = ascii ''data''"
  "take 4 (drop 40 (wavHeader n sr nc bps)) = le_bytes 4 n"
  by (simp_all add: wavHeader_def length_le_bytes length_ascii)

section \<open>Properties of createWavFileDataUrl\<close>

text \<open>
  The number of silence bytes is twice the floor of the rounded product of the duration and
  the sample rate. \<open>wavFileBytes_cases\<close> gives the result of \<open>wavFileBytes\<close> for every duration
  that is not negative, in every runtime.
\<close>

lemma js_times_finite_nonneg:
  assumes "0 \<le> q" "js_times (Finite q) (Finite 24000) = Finite p"
  shows "0 \<le> p"
proof -
  have "0 \<le> q * 24000" using assms(1) by simp
  then show ?thesis
    using roundToDouble_nonneg [of "q * 24000"] assms(2) by auto
qed

lemma ToIndex_big: "2 ^ 53 \<le> r \<Longrightarrow> ToIndex (Finite r) = None"
proof -
  assume r: "2 ^ 53 \<le> r"
  have "(0::rat) \<le> 2 ^ 53" by simp
  then have r0: "0 \<le> r" using r by linarith
  have "rat_of_int (2 ^ 53) \<le> r" using r by simp
  then have "2 ^ 53 \<le> \<lfloor>r\<rfloor>" by (simp only: le_floor_iff)
  then have "\<not> truncate r \<le> int maxIndex"
    using r0 by (simp add: truncate_def maxIndex_def)
  then show ?thesis by (simp add: ToIndex_def)
qed

lemma times_two_big:
  assumes "2 ^ 53 \<le> x * 2"
  shows "greaterThanZero (js_times (Finite x) (Finite 2))
         \<and> ToIndex (js_times (Finite x) (Finite 2)) = None"
proof -
  have pos: "(0::rat) < 2 ^ 53" by simp
  from roundToDouble_big [OF assms] show ?thesis
  proof
    assume "roundToDouble (x * 2) = PosInfinity"
    then show ?thesis by (simp add: greaterThanZero_def ToIndex_def)
  next
    assume "\<exists>r. roundToDouble (x * 2) = Finite r \<and> 2 ^ 53 \<le> r"
    then obtain r where r: "roundToDouble (x * 2) = Finite r" "2 ^ 53 \<le> r" by blast
    have "0 < r" using r(2) pos by linarith
    then show ?thesis using r ToIndex_big [OF r(2)] by (simp add: greaterThanZero_def)
  qed
qed

lemma count_of_samples_exact:
  assumes "0 \<le> f" "2 * f \<le> 2 ^ 53"
  shows "js_times (js_times (Finite (of_int f)) (Finite 1)) (Finite 2) = Finite (of_int (2 * f))"
proof -
  have f53: "f \<le> 2 ^ 53" using assms by simp
  have a: "js_times (Finite (of_int f)) (Finite 1) = Finite (of_int f)"
    using roundToDouble_int_exact [OF assms(1) f53] by simp
  have "0 \<le> 2 * f" using assms(1) by simp
  then have "roundToDouble (of_int (2 * f)) = Finite (of_int (2 * f))"
    using assms(2) by (rule roundToDouble_int_exact)
  then have b: "roundToDouble (of_int f * 2) = Finite (of_int (2 * f))"
    by (simp add: mult.commute)
  show ?thesis using a b by simp
qed

lemma count_of_samples_big:
  assumes "0 \<le> f" "2 ^ 53 < 2 * f"
  shows "greaterThanZero (js_times (js_times (Finite (of_int f)) (Finite 1)) (Finite 2))
         \<and> ToIndex (js_times (js_times (Finite (of_int f)) (Finite 1)) (Finite 2)) = None"
proof (cases "f \<le> 2 ^ 53")
  case True
  have a: "js_times (Finite (of_int f)) (Finite 1) = Finite (of_int f)"
    using roundToDouble_int_exact [OF assms(1) True] by simp
  have "2 ^ 53 \<le> 2 * f" using assms(2) by simp
  then have "rat_of_int (2 ^ 53) \<le> rat_of_int (2 * f)"
    by (simp only: of_int_le_iff)
  then have "2 ^ 53 \<le> rat_of_int f * 2" by (simp add: mult.commute)
  then show ?thesis using times_two_big [of "of_int f"] a by simp
next
  case False
  then have "2 ^ 53 \<le> f" by simp
  then have "rat_of_int (2 ^ 53) \<le> rat_of_int f"
    by (simp only: of_int_le_iff)
  then have big: "2 ^ 53 \<le> rat_of_int f" by simp
  from roundToDouble_big [OF big] show ?thesis
  proof
    assume "roundToDouble (rat_of_int f) = PosInfinity"
    then show ?thesis by (simp add: greaterThanZero_def ToIndex_def)
  next
    assume "\<exists>r. roundToDouble (rat_of_int f) = Finite r \<and> 2 ^ 53 \<le> r"
    then obtain r where r: "roundToDouble (rat_of_int f) = Finite r" "2 ^ 53 \<le> r" by blast
    have "(0::rat) \<le> 2 ^ 53" by simp
    then have "2 ^ 53 \<le> r * 2" using r(2) by linarith
    then show ?thesis using times_two_big [of r] r(1) by simp
  qed
qed

lemma silenceBytesCount_finite:
  "silenceBytesCount (Finite q) =
     (case js_times (Finite q) (Finite 24000) of
        Finite p \<Rightarrow> js_times (js_times (Finite (of_int \<lfloor>p\<rfloor>)) (Finite 1)) (Finite 2)
      | y \<Rightarrow> js_times (js_times y (Finite 1)) (Finite 2))"
  by (simp add: silenceBytesCount_def js_floor_def tts_sampleRate_def tts_numChannels_def
      tts_bitsPerSample_def Let_def split: number.splits)

lemma ToIndex_of_nat: "c \<le> maxIndex \<Longrightarrow> ToIndex (Finite (of_nat c)) = Some c"
  by (simp add: ToIndex_def truncate_def)

lemma ToIndex_of_int_big: "int maxIndex < k \<Longrightarrow> ToIndex (Finite (of_int k)) = None"
  by (simp add: ToIndex_def truncate_def)

lemma combine_buffers:
  assumes "ToIndex cnt = Some c"
  shows "andThen (newUint8Array A cnt h)
           (\<lambda>(silenceBuffer, h1).
             andThen (newArrayBuffer A (length pcmData + length silenceBuffer) h1)
               (\<lambda>(combinedData, h2).
                 andThen (typedArraySet combinedData pcmData 0)
                   (\<lambda>combinedData.
                     andThen (typedArraySet combinedData silenceBuffer (length pcmData))
                       (\<lambda>combinedData. Inr (combinedData, h2)))))
         = (if c \<le> maxIndex
            then (case constructAll A [c, length pcmData + c] h of
                    None \<Rightarrow> Inl RangeError
                  | Some h2 \<Rightarrow> Inr (pcmData @ replicate c 0, h2))
            else (case A h c of None \<Rightarrow> Inl RangeError
                  | Some h1 \<Rightarrow> Inl RangeError))"
proof (cases "A h c")
  case None
  then show ?thesis
    by (simp add: andThen_def newUint8Array_def createByteDataBlock_def assms)
next
  case (Some h1)
  have a: "newUint8Array A cnt h = Inr (replicate c 0, h1)"
    by (simp add: newUint8Array_def createByteDataBlock_def assms Some)
  have s1: "typedArraySet (replicate (length pcmData + c) 0) pcmData 0
              = Inr (pcmData @ replicate c 0)"
    by (simp add: typedArraySet_def)
  have s2: "typedArraySet (pcmData @ replicate c 0) (replicate c 0) (length pcmData)
              = Inr (pcmData @ replicate c 0)"
    by (simp add: typedArraySet_def)
  show ?thesis
  proof (cases "length pcmData + c \<le> maxIndex")
    case True
    then have c: "c \<le> maxIndex" by simp
    show ?thesis
    proof (cases "A h1 (length pcmData + c)")
      case None
      then show ?thesis
        using Some True c
        by (simp add: andThen_def a newArrayBuffer_def createByteDataBlock_def)
    next
      case h2: (Some h2)
      have b: "newArrayBuffer A (length pcmData + c) h1
                 = Inr (replicate (length pcmData + c) 0, h2)"
        using True h2 by (simp add: newArrayBuffer_def createByteDataBlock_def)
      show ?thesis
        using Some True c h2 by (simp add: andThen_def a b s1 s2)
    qed
  next
    case False
    then show ?thesis
      using Some by (simp add: andThen_def a newArrayBuffer_def)
  qed
qed

lemma appendSilence_finite:
  assumes q: "0 \<le> q" and p: "js_times (Finite q) (Finite 24000) = Finite p"
  shows "appendSilence A pcmData (Finite q) h =
           (if nat \<lfloor>p\<rfloor> = 0 then Inr (pcmData, h)
            else (case constructAll A [2 * nat \<lfloor>p\<rfloor>, length pcmData + 2 * nat \<lfloor>p\<rfloor>] h of
                    None \<Rightarrow> Inl RangeError
                  | Some h2 \<Rightarrow> Inr (pcmData @ replicate (2 * nat \<lfloor>p\<rfloor>) 0, h2)))"
proof -
  define f where "f = \<lfloor>p\<rfloor>"
  have p0: "0 \<le> p" using q p by (rule js_times_finite_nonneg)
  then have f0: "0 \<le> f" by (simp add: f_def)
  have cnt: "silenceBytesCount (Finite q)
               = js_times (js_times (Finite (of_int f)) (Finite 1)) (Finite 2)"
    using p by (simp add: silenceBytesCount_finite f_def)
  show ?thesis
  proof (cases "q = 0")
    case True
    then have "p = 0" using p by (simp add: roundToDouble_def)
    then show ?thesis using True by (simp add: appendSilence_def greaterThanZero_def)
  next
    case False
    then have gq: "greaterThanZero (Finite q)" using q by (simp add: greaterThanZero_def)
    show ?thesis
    proof (cases "2 * f \<le> 2 ^ 53")
      case True
      have c: "silenceBytesCount (Finite q) = Finite (of_int (2 * f))"
        using cnt count_of_samples_exact [OF f0 True] by simp
      show ?thesis
      proof (cases "f = 0")
        case True
        then show ?thesis
          using gq c by (simp add: appendSilence_def greaterThanZero_def f_def)
      next
        case False
        then have fpos: "0 < f" using f0 by simp
        then have gc: "greaterThanZero (silenceBytesCount (Finite q))"
          by (simp add: c greaterThanZero_def)
        have nz: "nat \<lfloor>p\<rfloor> \<noteq> 0" using fpos by (simp add: f_def)
        have cn: "rat_of_int (2 * f) = rat_of_nat (2 * nat f)"
          using f0 by simp
        show ?thesis
        proof (cases "2 * nat f \<le> maxIndex")
          case True
          have i: "ToIndex (silenceBytesCount (Finite q)) = Some (2 * nat f)"
            unfolding c cn using True by (rule ToIndex_of_nat)
          show ?thesis
            using gq gc nz True
            unfolding appendSilence_def combine_buffers [OF i] f_def
            by simp
        next
          case False
          then have "int maxIndex < 2 * f" using f0 by linarith
          then have i: "ToIndex (silenceBytesCount (Finite q)) = None"
            unfolding c by (rule ToIndex_of_int_big)
          show ?thesis
            using gq gc nz i False
            unfolding appendSilence_def f_def
            by (simp add: andThen_def newUint8Array_def)
        qed
      qed
    next
      case False
      then have big: "2 ^ 53 < 2 * f" by simp
      have b: "greaterThanZero (silenceBytesCount (Finite q))"
              "ToIndex (silenceBytesCount (Finite q)) = None"
        using count_of_samples_big [OF f0 big] cnt by simp_all
      have "int maxIndex < 2 * f" using big by (simp add: maxIndex_def)
      then have m: "\<not> 2 * nat f \<le> maxIndex" using f0 by linarith
      have nz: "nat f \<noteq> 0" using big by simp
      show ?thesis
        using gq b m nz
        unfolding appendSilence_def f_def
        by (simp add: andThen_def newUint8Array_def)
    qed
  qed
qed

lemma tts_format_valid: "8 dvd tts_bitsPerSample"
  by (simp add: tts_bitsPerSample_def)

lemma wavFileBytes_finite:
  assumes q: "0 \<le> q" and p: "js_times (Finite q) (Finite 24000) = Finite p"
  shows "wavFileBytes A pcmData (Finite q) h =
           (case constructAll A (bufferRequests (length pcmData) (2 * nat \<lfloor>p\<rfloor>)) h of
              None \<Rightarrow> Inl RangeError
            | Some h' \<Rightarrow>
                Inr (wavHeader (length pcmData + 2 * nat \<lfloor>p\<rfloor>) tts_sampleRate tts_numChannels
                       tts_bitsPerSample
                     @ pcmData @ replicate (2 * nat \<lfloor>p\<rfloor>) 0, h'))"
proof (cases "nat \<lfloor>p\<rfloor> = 0")
  case True
  then have a: "appendSilence A pcmData (Finite q) h = Inr (pcmData, h)"
    using appendSilence_finite [OF q p, of A pcmData h] by simp
  have z: "2 * nat \<lfloor>p\<rfloor> = 0" using True by simp
  show ?thesis
    unfolding z
    using createWavFile_layout [OF tts_format_valid, of A pcmData tts_sampleRate
        tts_numChannels h]
    by (simp add: wavFileBytes_def a andThen_def bufferRequests_def cong: option.case_cong)
next
  case False
  define s where "s = 2 * nat \<lfloor>p\<rfloor>"
  have s0: "s \<noteq> 0" using False by (simp add: s_def)
  have a: "appendSilence A pcmData (Finite q) h =
             (case constructAll A [s, length pcmData + s] h of
                None \<Rightarrow> Inl RangeError
              | Some h2 \<Rightarrow> Inr (pcmData @ replicate s 0, h2))"
    using appendSilence_finite [OF q p, of A pcmData h] False
    by (simp add: s_def cong: option.case_cong)
  have c: "createWavFile A (pcmData @ replicate s 0) tts_sampleRate tts_numChannels
             tts_bitsPerSample h2
           = (case constructAll A [length pcmData + s + 44] h2 of
                None \<Rightarrow> Inl RangeError
              | Some h' \<Rightarrow>
                  Inr (wavHeader (length pcmData + s) tts_sampleRate tts_numChannels
                         tts_bitsPerSample @ pcmData @ replicate s 0, h'))" for h2
    using createWavFile_layout [OF tts_format_valid, of A "pcmData @ replicate s 0"
        tts_sampleRate tts_numChannels h2]
    by (simp cong: option.case_cong)
  have "wavFileBytes A pcmData (Finite q) h =
           (case constructAll A [s, length pcmData + s, length pcmData + s + 44] h of
              None \<Rightarrow> Inl RangeError
            | Some h' \<Rightarrow>
                Inr (wavHeader (length pcmData + s) tts_sampleRate tts_numChannels
                       tts_bitsPerSample
                     @ pcmData @ replicate s 0, h'))"
    unfolding wavFileBytes_def a
    by (auto simp: andThen_def c split: option.splits if_splits)
  then show ?thesis using s0 by (simp add: bufferRequests_def s_def cong: option.case_cong)
qed

lemma wavFileBytes_overflow:
  assumes "2 ^ 53 \<le> q * 24000"
  shows "wavFileBytes A pcmData (Finite q) h = Inl RangeError"
proof -
  have pos: "(0::rat) < 2 ^ 53" by simp
  then have q0: "0 < q * 24000" using assms by linarith
  then have q: "0 < q" by (simp add: zero_less_mult_iff)
  then have gq: "greaterThanZero (Finite q)" by (simp add: greaterThanZero_def)
  have "greaterThanZero (silenceBytesCount (Finite q))
        \<and> ToIndex (silenceBytesCount (Finite q)) = None"
    using roundToDouble_big [OF assms]
  proof
    assume "roundToDouble (q * 24000) = PosInfinity"
    then show ?thesis
      by (simp add: silenceBytesCount_finite greaterThanZero_def ToIndex_def)
  next
    assume "\<exists>r. roundToDouble (q * 24000) = Finite r \<and> 2 ^ 53 \<le> r"
    then obtain r where r: "roundToDouble (q * 24000) = Finite r" "2 ^ 53 \<le> r" by blast
    have "rat_of_int (2 ^ 53) \<le> r" using r(2) by simp
    then have f: "2 ^ 53 \<le> \<lfloor>r\<rfloor>" by (simp only: le_floor_iff)
    have z: "(0::int) < 2 ^ 53" by simp
    have f0: "0 \<le> \<lfloor>r\<rfloor>" using f z by linarith
    have big: "2 ^ 53 < 2 * \<lfloor>r\<rfloor>" using f z by linarith
    show ?thesis
      using count_of_samples_big [OF f0 big] r(1) by (simp add: silenceBytesCount_finite)
  qed
  then have "appendSilence A pcmData (Finite q) h = Inl RangeError"
    using gq by (simp add: appendSilence_def newUint8Array_def andThen_def)
  then show ?thesis by (simp add: wavFileBytes_def andThen_def)
qed

lemma wavFileBytes_infinite:
  assumes "js_times (Finite q) (Finite 24000) = PosInfinity"
  shows "wavFileBytes A pcmData (Finite q) h = Inl RangeError"
proof -
  have r: "roundToDouble (q * 24000) = PosInfinity" using assms by simp
  have "q \<noteq> 0" using r by (auto simp: roundToDouble_def)
  moreover have "\<not> q < 0"
  proof
    assume "q < 0"
    then have "q * 24000 < 0" by simp
    then show False using r by (simp add: roundToDouble_def split: number.splits)
  qed
  ultimately have gq: "greaterThanZero (Finite q)" by (simp add: greaterThanZero_def)
  have c: "silenceBytesCount (Finite q) = PosInfinity"
    using r by (simp add: silenceBytesCount_finite)
  have "appendSilence A pcmData (Finite q) h = Inl RangeError"
    using gq by (simp add: appendSilence_def c greaterThanZero_def newUint8Array_def ToIndex_def
        andThen_def)
  then show ?thesis by (simp add: wavFileBytes_def andThen_def)
qed

lemma wavFileBytes_cases:
  assumes "0 \<le> q"
  shows "wavFileBytes A pcmData (Finite q) h =
           (case js_times (Finite q) (Finite 24000) of
              Finite p \<Rightarrow>
                (case constructAll A (bufferRequests (length pcmData) (2 * nat \<lfloor>p\<rfloor>)) h of
                   None \<Rightarrow> Inl RangeError
                 | Some h' \<Rightarrow>
                     Inr (wavHeader (length pcmData + 2 * nat \<lfloor>p\<rfloor>) tts_sampleRate
                            tts_numChannels tts_bitsPerSample
                          @ pcmData @ replicate (2 * nat \<lfloor>p\<rfloor>) 0, h'))
            | y \<Rightarrow> Inl RangeError)"
proof -
  have "0 \<le> q * 24000" using assms by simp
  from roundToDouble_nonneg [OF this] show ?thesis
  proof
    assume i: "roundToDouble (q * 24000) = PosInfinity"
    then have j: "js_times (Finite q) (Finite 24000) = PosInfinity" by simp
    show ?thesis unfolding wavFileBytes_infinite [OF j] j by simp
  next
    assume "\<exists>r. roundToDouble (q * 24000) = Finite r \<and> 0 \<le> r"
    then obtain r where j: "js_times (Finite q) (Finite 24000) = Finite r" by auto
    show ?thesis unfolding wavFileBytes_finite [OF assms j] j by simp
  qed
qed

lemma wavFileBytes_PosInfinity: "wavFileBytes A pcmData PosInfinity h = Inl RangeError"
proof -
  have c: "silenceBytesCount PosInfinity = PosInfinity"
    by (simp add: silenceBytesCount_def js_floor_def tts_sampleRate_def tts_numChannels_def
        tts_bitsPerSample_def Let_def)
  have "appendSilence A pcmData PosInfinity h = Inl RangeError"
    by (simp add: appendSilence_def c greaterThanZero_def newUint8Array_def ToIndex_def
        andThen_def)
  then show ?thesis by (simp add: wavFileBytes_def andThen_def)
qed

lemma constructAll_too_big:
  "maxIndex < s \<Longrightarrow> constructAll A (bufferRequests inputLength s) h = None"
  by (simp add: bufferRequests_def)

lemma drop_header: "drop 44 (wavHeader n sr nc bps @ payload) = payload"
  by (simp add: length_wavHeader)

text \<open>Evaluation of the model on the buffers and durations of the examples.\<close>

lemma wavHeader_tts_4:
  "wavHeader 4 24000 1 16
     = [82, 73, 70, 70, 40, 0, 0, 0, 87, 65, 86, 69, 102, 109, 116, 32, 16, 0, 0, 0, 1, 0, 1, 0,
        192, 93, 0, 0, 128, 187, 0, 0, 2, 0, 16, 0, 100, 97, 116, 97, 4, 0, 0, 0]"
  by (simp add: wavHeader_def ascii_def le_bytes_4 le_bytes_2)

lemma wavHeader_tts_2:
  "wavHeader 2 24000 1 16
     = [82, 73, 70, 70, 38, 0, 0, 0, 87, 65, 86, 69, 102, 109, 116, 32, 16, 0, 0, 0, 1, 0, 1, 0,
        192, 93, 0, 0, 128, 187, 0, 0, 2, 0, 16, 0, 100, 97, 116, 97, 2, 0, 0, 0]"
  by (simp add: wavHeader_def ascii_def le_bytes_4 le_bytes_2)

lemma wavHeader_tts_24002:
  "wavHeader 24002 24000 1 16
     = [82, 73, 70, 70, 230, 93, 0, 0, 87, 65, 86, 69, 102, 109, 116, 32, 16, 0, 0, 0, 1, 0, 1, 0,
        192, 93, 0, 0, 128, 187, 0, 0, 2, 0, 16, 0, 100, 97, 116, 97, 194, 93, 0, 0]"
  by (simp add: wavHeader_def ascii_def le_bytes_4 le_bytes_2)

lemma wavHeader_tts_24003:
  "wavHeader 24003 24000 1 16
     = [82, 73, 70, 70, 231, 93, 0, 0, 87, 65, 86, 69, 102, 109, 116, 32, 16, 0, 0, 0, 1, 0, 1, 0,
        192, 93, 0, 0, 128, 187, 0, 0, 2, 0, 16, 0, 100, 97, 116, 97, 195, 93, 0, 0]"
  by (simp add: wavHeader_def ascii_def le_bytes_4 le_bytes_2)

lemma wavHeader_tts_33602:
  "wavHeader 33602 24000 1 16
     = [82, 73, 70, 70, 102, 131, 0, 0, 87, 65, 86, 69, 102, 109, 116, 32, 16, 0, 0, 0, 1, 0, 1, 0,
        192, 93, 0, 0, 128, 187, 0, 0, 2, 0, 16, 0, 100, 97, 116, 97, 66, 131, 0, 0]"
  by (simp add: wavHeader_def ascii_def le_bytes_4 le_bytes_2)

lemma floor_numeral_div: "\<lfloor>(numeral a :: rat) / numeral b\<rfloor> = numeral a div numeral b"
  using floor_divide_of_int_eq [of "numeral a" "numeral b", where ?'a = rat] by simp

lemma floorLog2_a: "floorLog2 (1 / 100000) = - 17"
  by (simp add: floorLog2_def pow2_def Let_def)

lemma rhe_a: "roundHalfEven (590295810358705651712 / 100000) = 5902958103587057"
  by (simp add: roundHalfEven_def Let_def floor_numeral_div)

lemma literal_1e_5: "roundToDouble (1 / 100000) = Finite (5902958103587057 / 590295810358705651712)"
proof -
  have u: "pow2 (max (floorLog2 (1 / 100000)) (- 1022) - 52) = 1 / 590295810358705651712"
    by (simp add: floorLog2_a pow2_def)
  have m: "(1 / 100000) / (1 / 590295810358705651712) = (590295810358705651712 / 100000 :: rat)"
    by simp
  have r: "\<not> pow2 1024 \<le> 5902958103587057 / 590295810358705651712"
  proof -
    have "(1::rat) \<le> 2 ^ 1024" by (rule one_le_power) simp
    then show ?thesis by (simp add: pow2_def)
  qed
  have "roundPositive (1 / 100000) = Finite (5902958103587057 / 590295810358705651712)"
    unfolding roundPositive_def Let_def u m rhe_a using r by simp
  then show ?thesis by (simp add: roundToDouble_def)
qed

lemma product_1e_5:
  "roundToDouble (5902958103587057 / 590295810358705651712 * 24000)
     = Finite (8646911284551353 / 36028797018963968)"
proof -
  have x: "5902958103587057 / 590295810358705651712 * 24000
             = (2213609288845146375 / 9223372036854775808 :: rat)"
    by simp
  have fl: "floorLog2 (2213609288845146375 / 9223372036854775808) = - 3"
    by (simp add: floorLog2_def pow2_def Let_def floor_numeral_div)
  have u: "pow2 (max (floorLog2 (2213609288845146375 / 9223372036854775808)) (- 1022) - 52)
             = 1 / 36028797018963968"
    by (simp add: fl pow2_def)
  have m: "(2213609288845146375 / 9223372036854775808) / (1 / 36028797018963968)
             = (2213609288845146375 / 256 :: rat)"
    by simp
  have n: "roundHalfEven (2213609288845146375 / 256) = 8646911284551353"
    by (simp add: roundHalfEven_def Let_def floor_numeral_div)
  have r: "\<not> pow2 1024 \<le> 8646911284551353 / 36028797018963968"
  proof -
    have "(1::rat) \<le> 2 ^ 1024" by (rule one_le_power) simp
    then show ?thesis by (simp add: pow2_def)
  qed
  have "roundPositive (2213609288845146375 / 9223372036854775808)
          = Finite (8646911284551353 / 36028797018963968)"
    unfolding roundPositive_def Let_def u m n using r by simp
  then show ?thesis unfolding x by (simp add: roundToDouble_def)
qed

lemma literal_0_7: "roundToDouble (7 / 10) = Finite (3152519739159347 / 4503599627370496)"
proof -
  have fl: "floorLog2 (7 / 10) = - 1"
    by (simp add: floorLog2_def pow2_def Let_def floor_numeral_div)
  have u: "pow2 (max (floorLog2 (7 / 10)) (- 1022) - 52) = 1 / 9007199254740992"
    by (simp add: fl pow2_def)
  have m: "(7 / 10) / (1 / 9007199254740992) = (63050394783186944 / 10 :: rat)"
    by simp
  have n: "roundHalfEven (63050394783186944 / 10) = 6305039478318694"
    by (simp add: roundHalfEven_def Let_def floor_numeral_div)
  have v: "rat_of_int 6305039478318694 * (1 / 9007199254740992)
             = 3152519739159347 / 4503599627370496"
    by simp
  have r: "\<not> pow2 1024 \<le> 3152519739159347 / 4503599627370496"
  proof -
    have "(1::rat) \<le> 2 ^ 1024" by (rule one_le_power) simp
    then show ?thesis by (simp add: pow2_def)
  qed
  have "roundPositive (7 / 10) = Finite (3152519739159347 / 4503599627370496)"
    unfolding roundPositive_def Let_def u m n v using r by simp
  then show ?thesis by (simp add: roundToDouble_def)
qed

lemma exact_product_0_7:
  "\<lfloor>3152519739159347 / 4503599627370496 * 24000 :: rat\<rfloor> = 16799"
proof -
  have "3152519739159347 / 4503599627370496 * 24000
          = (1182194902184755125 / 70368744177664 :: rat)"
    by simp
  then show ?thesis by (simp add: floor_numeral_div)
qed

lemma product_0_7:
  "roundToDouble (3152519739159347 / 4503599627370496 * 24000) = Finite 16800"
proof -
  have x: "3152519739159347 / 4503599627370496 * 24000
             = (1182194902184755125 / 70368744177664 :: rat)"
    by simp
  have fl: "floorLog2 (1182194902184755125 / 70368744177664) = 14"
    by (simp add: floorLog2_def floor_numeral_div)
  have u: "pow2 (max (floorLog2 (1182194902184755125 / 70368744177664)) (- 1022) - 52)
             = 1 / 274877906944"
    by (simp add: fl pow2_def)
  have m: "(1182194902184755125 / 70368744177664) / (1 / 274877906944)
             = (1182194902184755125 / 256 :: rat)"
    by simp
  have n: "roundHalfEven (1182194902184755125 / 256) = 4617948836659200"
    by (simp add: roundHalfEven_def Let_def floor_numeral_div)
  have v: "rat_of_int 4617948836659200 * (1 / 274877906944) = 16800"
    by simp
  have r: "\<not> pow2 1024 \<le> 16800"
  proof -
    have "(2::rat) ^ 15 \<le> 2 ^ 1024" by (rule power_increasing) simp_all
    then show ?thesis by (simp add: pow2_def)
  qed
  have "roundPositive (1182194902184755125 / 70368744177664) = Finite 16800"
    unfolding roundPositive_def Let_def u m n v using r by simp
  then show ?thesis unfolding x by (simp add: roundToDouble_def)
qed

lemma roundToDouble_12000: "roundToDouble 12000 = Finite 12000"
  using roundToDouble_int_exact [of 12000] by simp

lemma roundToDouble_long: "roundToDouble 805306368000 = Finite 805306368000"
  using roundToDouble_int_exact [of 805306368000] by simp

lemma half_second_samples: "js_times (Finite (1 / 2)) (Finite 24000) = Finite 12000"
  using roundToDouble_int_exact [of 12000] by simp

lemma zero_seconds_samples: "js_times (Finite 0) (Finite 24000) = Finite 0"
  by (simp add: roundToDouble_def)

lemma tiny_seconds_samples:
  "js_times (Finite (5902958103587057 / 590295810358705651712)) (Finite 24000)
     = Finite (8646911284551353 / 36028797018963968)"
  using product_1e_5 by simp

lemma floor_tiny: "\<lfloor>8646911284551353 / 36028797018963968 :: rat\<rfloor> = 0"
  by (simp add: floor_numeral_div)

lemma seven_tenths_samples:
  "js_times (Finite (3152519739159347 / 4503599627370496)) (Finite 24000) = Finite 16800"
  using product_0_7 by simp

lemma long_silence_samples:
  "js_times (Finite (2 ^ 25)) (Finite 24000) = Finite 805306368000"
  using roundToDouble_int_exact [of 805306368000] by simp

lemma requests_half_second:
  "constructAll sampleHeap (bufferRequests (Suc (Suc 0)) 24000) 0 = Some 72048"
  "constructAll sampleHeap (bufferRequests (Suc (Suc (Suc 0))) 24000) 0 = Some 72050"
  "constructAll sampleHeap (bufferRequests (Suc (Suc 0)) 0) 0 = Some 46"
  "constructAll sampleHeap (bufferRequests (Suc (Suc 0)) 33600) 0 = Some 100848"
  "constructAll sampleHeap (bufferRequests (Suc (Suc (Suc 0))) 1610612736000) 0 = None"
  by (simp_all add: bufferRequests_def sampleHeap_def boundedHeap_def maxIndex_def)

text \<open>
  C1. For every PCM byte buffer and format parameters that fit the fields of the header
  (a whole number of bytes in a sample, the channel count, the bits per sample and the block
  alignment below \<open>2 ^ 16\<close>, the sample rate and the byte rate below \<open>2 ^ 32\<close>), where the
  runtime constructs the output buffer of 44 bytes more than the input, \<open>createWavFile\<close>
  returns a header of exactly 44 bytes followed by the payload. The header holds the
  container tag at bytes 0 to 3, the total size minus 8 at bytes 4 to 7, the format tag at
  bytes 8 to 11, the sub-chunk tag at bytes 12 to 15, then the sub-chunk length 16, the
  format code 1, the channel count, the sample rate, the byte rate, the block alignment and
  the bits per sample, the data tag at bytes 36 to 39 and the payload length at bytes 40 to
  43, every number in little-endian order. The two size fields are 32 bits wide and hold
  their value modulo \<open>2 ^ 32\<close>.
\<close>

theorem createWavFile_header:
  assumes "8 dvd bitsPerSample"
    and "numChannels < 2 ^ 16" and "bitsPerSample < 2 ^ 16" and "sampleRate < 2 ^ 32"
    and "sampleRate * numChannels * (bitsPerSample div 8) < 2 ^ 32"
    and "numChannels * (bitsPerSample div 8) < 2 ^ 16"
    and "length pcmData + 44 \<le> maxIndex"
    and "A h (length pcmData + 44) = Some h'"
  defines "H \<equiv> wavHeader (length pcmData) sampleRate numChannels bitsPerSample"
  shows "createWavFile A pcmData sampleRate numChannels bitsPerSample h = Inr (H @ pcmData, h')
         \<and> length H = 44 \<and> length (H @ pcmData) = 44 + length pcmData
         \<and> take 4 H = ascii ''RIFF''
         \<and> take 4 (drop 4 H) = le_bytes 4 (length (H @ pcmData) - 8)
         \<and> le_value (take 4 (drop 4 H)) = (length (H @ pcmData) - 8) mod 2 ^ 32
         \<and> take 4 (drop 8 H) = ascii ''WAVE''
         \<and> take 4 (drop 12 H) = ascii ''fmt ''
         \<and> le_value (take 4 (drop 16 H)) = 16
         \<and> le_value (take 2 (drop 20 H)) = 1
         \<and> le_value (take 2 (drop 22 H)) = numChannels
         \<and> le_value (take 4 (drop 24 H)) = sampleRate
         \<and> le_value (take 4 (drop 28 H)) = sampleRate * numChannels * (bitsPerSample div 8)
         \<and> le_value (take 2 (drop 32 H)) = numChannels * (bitsPerSample div 8)
         \<and> le_value (take 2 (drop 34 H)) = bitsPerSample
         \<and> take 4 (drop 36 H) = ascii ''data''
         \<and> take 4 (drop 40 H) = le_bytes 4 (length pcmData)
         \<and> le_value (take 4 (drop 40 H)) = length pcmData mod 2 ^ 32"
proof -
  have p32: "(256::nat) ^ 4 = 2 ^ 32" and p16: "(256::nat) ^ 2 = 2 ^ 16" by simp_all
  have c: "createWavFile A pcmData sampleRate numChannels bitsPerSample h = Inr (H @ pcmData, h')"
    unfolding H_def using assms(7,8) createWavFile_layout [OF assms(1), of A pcmData sampleRate numChannels h]
    by simp
  have l: "length H = 44" by (simp add: H_def length_wavHeader)
  have s: "length (H @ pcmData) - 8 = length pcmData + 44 - 8" using l by simp
  have f1: "le_value (le_bytes 4 16) = 16" "le_value (le_bytes 2 1) = 1"
    by (simp_all add: le_value_le_bytes)
  have f2: "le_value (le_bytes 2 numChannels) = numChannels"
    using assms(2) by (simp add: le_value_fits)
  have f3: "le_value (le_bytes 4 sampleRate) = sampleRate"
    using assms(4) by (simp add: le_value_fits)
  have f4: "le_value (le_bytes 4 (sampleRate * numChannels * (bitsPerSample div 8)))
              = sampleRate * numChannels * (bitsPerSample div 8)"
    using assms(5) by (simp add: le_value_fits)
  have f5: "le_value (le_bytes 2 (numChannels * (bitsPerSample div 8)))
              = numChannels * (bitsPerSample div 8)"
    using assms(6) by (simp add: le_value_fits)
  have f6: "le_value (le_bytes 2 bitsPerSample) = bitsPerSample"
    using assms(3) by (simp add: le_value_fits)
  have f7: "le_value (le_bytes 4 v) = v mod 2 ^ 32" for v
    by (simp add: le_value_le_bytes)
  show ?thesis
    unfolding s
    using c l f1 f2 f3 f4 f5 f6 f7
    by (simp add: H_def header_fields)
qed

theorem createWavFile_header_witness:
  "createWavFile sampleHeap [1, 2, 3, 4] 24000 1 16 0
     = Inr ([82, 73, 70, 70, 40, 0, 0, 0, 87, 65, 86, 69, 102, 109, 116, 32, 16, 0, 0, 0, 1, 0, 1, 0,
             192, 93, 0, 0, 128, 187, 0, 0, 2, 0, 16, 0, 100, 97, 116, 97, 4, 0, 0, 0,
             1, 2, 3, 4], 48)"
proof -
  have a: "(8::nat) dvd 16" "(1::nat) < 2 ^ 16" "(16::nat) < 2 ^ 16" "(24000::nat) < 2 ^ 32"
    "(24000::nat) * 1 * (16 div 8) < 2 ^ 32" "(1::nat) * (16 div 8) < 2 ^ 16"
    by simp_all
  have b: "length [1, 2, 3, 4 :: 8 word] + 44 \<le> maxIndex"
    by (simp add: maxIndex_def)
  have g: "sampleHeap 0 (length [1, 2, 3, 4 :: 8 word] + 44) = Some 48"
    by (simp add: sampleHeap_def boundedHeap_def)
  have l: "length [1, 2, 3, 4 :: 8 word] = 4" by simp
  have "createWavFile sampleHeap [1, 2, 3, 4] 24000 1 16 0
          = Inr (wavHeader (length [1, 2, 3, 4 :: 8 word]) 24000 1 16 @ [1, 2, 3, 4], 48)"
    using createWavFile_header [where A = sampleHeap and h = 0 and h' = 48
        and pcmData = "[1, 2, 3, 4]" and sampleRate = 24000 and numChannels = 1
        and bitsPerSample = 16, OF a b g]
    by (rule conjunct1)
  then show ?thesis unfolding l wavHeader_tts_4 by simp
qed

text \<open>
  C2. For every PCM byte buffer and every duration \<open>d\<close> that is not negative, with \<open>p\<close> the
  double that \<open>d * sampleRate\<close> evaluates to and \<open>s = floor(p) * channels * (bitsPerSample / 8)\<close>:
  the encoder returns exactly when the runtime constructs each buffer it asks for, and its
  payload is then the input followed by exactly \<open>s\<close> zero bytes. For \<open>d = 0\<close>, and whenever
  \<open>p < 1\<close>, \<open>s\<close> is 0 and the payload is the input, byte for byte. Where the runtime refuses a
  buffer the encoder raises \<open>RangeError\<close> and there is no payload; every runtime refuses the
  silence buffer when \<open>s\<close> is above \<open>2 ^ 53 - 1\<close>, which is the case from \<open>d * sampleRate\<close>
  \<open>= 2 ^ 53\<close> on.
\<close>

theorem trailing_silence_payload:
  assumes "0 \<le> d"
    and "js_times (Finite d) (Finite (of_nat tts_sampleRate)) = Finite p"
  defines "s \<equiv> nat \<lfloor>p\<rfloor> * tts_numChannels * (tts_bitsPerSample div 8)"
  shows "wavFileBytes A pcmData (Finite d) h =
           (case constructAll A (bufferRequests (length pcmData) s) h of
              None \<Rightarrow> Inl RangeError
            | Some h' \<Rightarrow>
                Inr (wavHeader (length pcmData + s) tts_sampleRate tts_numChannels
                       tts_bitsPerSample
                     @ pcmData @ replicate s 0, h'))
         \<and> (\<forall>out h'. wavFileBytes A pcmData (Finite d) h = Inr (out, h') \<longrightarrow>
               length out = 44 + length pcmData + s \<and> drop 44 out = pcmData @ replicate s 0)
         \<and> (d = 0 \<longrightarrow> s = 0)
         \<and> (p < 1 \<longrightarrow> s = 0)
         \<and> (s = 0 \<longrightarrow>
              (\<forall>out h'. wavFileBytes A pcmData (Finite d) h = Inr (out, h') \<longrightarrow>
                 drop 44 out = pcmData))
         \<and> (maxIndex < s \<longrightarrow> wavFileBytes A pcmData (Finite d) h = Inl RangeError)
         \<and> (2 ^ 53 \<le> d * of_nat tts_sampleRate \<longrightarrow>
              wavFileBytes A pcmData (Finite d) h = Inl RangeError)"
proof -
  have n: "s = 2 * nat \<lfloor>p\<rfloor>"
    by (simp add: s_def tts_numChannels_def tts_bitsPerSample_def)
  have p: "js_times (Finite d) (Finite 24000) = Finite p"
    using assms(2) by (simp add: tts_sampleRate_def)
  have w: "wavFileBytes A pcmData (Finite d) h =
           (case constructAll A (bufferRequests (length pcmData) s) h of
              None \<Rightarrow> Inl RangeError
            | Some h' \<Rightarrow>
                Inr (wavHeader (length pcmData + s) tts_sampleRate tts_numChannels
                       tts_bitsPerSample
                     @ pcmData @ replicate s 0, h'))"
    unfolding n by (rule wavFileBytes_finite [OF assms(1) p])
  have o: "\<forall>out h'. wavFileBytes A pcmData (Finite d) h = Inr (out, h') \<longrightarrow>
               length out = 44 + length pcmData + s \<and> drop 44 out = pcmData @ replicate s 0"
    unfolding w by (auto simp: drop_header length_wavHeader split: option.splits)
  have z: "d = 0 \<longrightarrow> s = 0"
  proof
    assume "d = 0"
    then have "p = 0" using p by (simp add: roundToDouble_def)
    then show "s = 0" by (simp add: n)
  qed
  have l: "p < 1 \<longrightarrow> s = 0"
  proof
    assume "p < 1"
    then have "\<lfloor>p\<rfloor> < 1" by (simp add: floor_less_iff)
    then show "s = 0" by (simp add: n)
  qed
  have e: "s = 0 \<longrightarrow>
              (\<forall>out h'. wavFileBytes A pcmData (Finite d) h = Inr (out, h') \<longrightarrow>
                 drop 44 out = pcmData)"
    using o by simp
  have b: "maxIndex < s \<longrightarrow> wavFileBytes A pcmData (Finite d) h = Inl RangeError"
    unfolding w by (simp add: constructAll_too_big)
  have v: "2 ^ 53 \<le> d * of_nat tts_sampleRate \<longrightarrow>
              wavFileBytes A pcmData (Finite d) h = Inl RangeError"
    using wavFileBytes_overflow [of d A pcmData h] by (simp add: tts_sampleRate_def)
  show ?thesis using w o z l e b v by blast
qed

text \<open>
  At 24000 Hz, mono, 16 bits, in the sample runtime: half a second appends 24000 zero bytes;
  a duration of 0, and the double of the literal \<open>0.00001\<close>, append none.
\<close>

theorem trailing_silence_payload_witness:
  "wavFileBytes sampleHeap [1, 2] (Finite (1 / 2)) 0
     = Inr ([82, 73, 70, 70, 230, 93, 0, 0, 87, 65, 86, 69, 102, 109, 116, 32, 16, 0, 0, 0,
             1, 0, 1, 0, 192, 93, 0, 0, 128, 187, 0, 0, 2, 0, 16, 0, 100, 97, 116, 97,
             194, 93, 0, 0]
            @ [1, 2] @ replicate 24000 0, 72048)
   \<and> wavFileBytes sampleHeap [1, 2] (Finite 0) 0
     = Inr ([82, 73, 70, 70, 38, 0, 0, 0, 87, 65, 86, 69, 102, 109, 116, 32, 16, 0, 0, 0,
             1, 0, 1, 0, 192, 93, 0, 0, 128, 187, 0, 0, 2, 0, 16, 0, 100, 97, 116, 97,
             2, 0, 0, 0]
            @ [1, 2], 46)
   \<and> roundToDouble (1 / 100000) = Finite (5902958103587057 / 590295810358705651712)
   \<and> wavFileBytes sampleHeap [1, 2]
        (Finite (5902958103587057 / 590295810358705651712)) 0
     = Inr ([82, 73, 70, 70, 38, 0, 0, 0, 87, 65, 86, 69, 102, 109, 116, 32, 16, 0, 0, 0,
             1, 0, 1, 0, 192, 93, 0, 0, 128, 187, 0, 0, 2, 0, 16, 0, 100, 97, 116, 97,
             2, 0, 0, 0]
            @ [1, 2], 46)"
proof -
  have h1: "js_times (Finite (1 / 2)) (Finite (of_nat tts_sampleRate)) = Finite 12000"
    using half_second_samples by (simp add: tts_sampleRate_def)
  have h2: "js_times (Finite 0) (Finite (of_nat tts_sampleRate)) = Finite 0"
    using zero_seconds_samples by (simp add: tts_sampleRate_def)
  have h3: "js_times (Finite (5902958103587057 / 590295810358705651712))
              (Finite (of_nat tts_sampleRate))
            = Finite (8646911284551353 / 36028797018963968)"
    using tiny_seconds_samples by (simp add: tts_sampleRate_def)
  have z1: "(0::rat) \<le> 1 / 2" and z2: "(0::rat) \<le> 0"
    and z3: "(0::rat) \<le> 5902958103587057 / 590295810358705651712"
    by simp_all
  have l: "length [1, 2 :: 8 word] = 2" by simp
  have t: "tts_sampleRate = 24000" "tts_numChannels = 1" "tts_bitsPerSample = 16"
    by (simp_all add: tts_sampleRate_def tts_numChannels_def tts_bitsPerSample_def)
  have a1: "wavFileBytes sampleHeap [1, 2] (Finite (1 / 2)) 0
              = Inr (wavHeader (2 + 24000) 24000 1 16 @ [1, 2] @ replicate 24000 0, 72048)"
    using trailing_silence_payload [OF z1 h1, of sampleHeap "[1, 2]" 0,
        THEN conjunct1]
    by (simp add: t requests_half_second)
  have a2: "wavFileBytes sampleHeap [1, 2] (Finite 0) 0
              = Inr (wavHeader (length [1, 2 :: 8 word]) 24000 1 16 @ [1, 2], 46)"
    using trailing_silence_payload [OF z2 h2, of sampleHeap "[1, 2]" 0,
        THEN conjunct1]
    by (simp add: t requests_half_second)
  have a3: "wavFileBytes sampleHeap [1, 2]
              (Finite (5902958103587057 / 590295810358705651712)) 0
              = Inr (wavHeader (length [1, 2 :: 8 word]) 24000 1 16 @ [1, 2], 46)"
    using trailing_silence_payload [OF z3 h3, of sampleHeap "[1, 2]" 0,
        THEN conjunct1]
    by (simp add: t requests_half_second floor_tiny)
  have e: "(2::nat) + 24000 = 24002" by simp
  show ?thesis
    unfolding a1 a2 a3 e l wavHeader_tts_24002 wavHeader_tts_2 literal_1e_5
    by simp
qed

text \<open>
  Two durations at which the payload is not the input followed by
  \<open>floor(d * sampleRate) * channels * (bitsPerSample / 8)\<close> zero bytes. For \<open>2 ^ 40\<close> seconds
  no runtime constructs the silence buffer, and there is no payload. For the double of the
  literal \<open>0.7\<close> the product with 24000 is below 16800, its floor is 16799 and the formula
  gives 33598 bytes; the program rounds the product to the double 16800 and appends 33600.
\<close>

theorem silence_claim_fails:
  "(\<forall>A h. wavFileBytes A [1, 2] (Finite (2 ^ 40)) h = Inl RangeError)
   \<and> roundToDouble (7 / 10) = Finite (3152519739159347 / 4503599627370496)
   \<and> nat \<lfloor>3152519739159347 / 4503599627370496 * 24000 :: rat\<rfloor> * 1 * (16 div 8) = 33598
   \<and> wavFileBytes sampleHeap [1, 2]
        (Finite (3152519739159347 / 4503599627370496)) 0
     = Inr ([82, 73, 70, 70, 102, 131, 0, 0, 87, 65, 86, 69, 102, 109, 116, 32, 16, 0, 0, 0,
             1, 0, 1, 0, 192, 93, 0, 0, 128, 187, 0, 0, 2, 0, 16, 0, 100, 97, 116, 97,
             66, 131, 0, 0]
            @ [1, 2] @ replicate 33600 0, 100848)"
proof -
  have "(2::rat) ^ 53 = 2 ^ 40 * 2 ^ 13" by (simp only: power_add [symmetric]) simp
  also have "\<dots> \<le> 2 ^ 40 * 24000" by (rule mult_left_mono) simp_all
  finally have big: "(2::rat) ^ 53 \<le> 2 ^ 40 * 24000" .
  have a: "\<forall>A h. wavFileBytes A [1, 2] (Finite (2 ^ 40)) h = Inl RangeError"
    by (intro allI wavFileBytes_overflow big)
  have c: "nat \<lfloor>3152519739159347 / 4503599627370496 * 24000 :: rat\<rfloor> * 1 * (16 div 8) = 33598"
    unfolding exact_product_0_7 by simp
  have z: "(0::rat) \<le> 3152519739159347 / 4503599627370496" by simp
  have l: "length [1, 2 :: 8 word] = 2" by simp
  have t: "tts_sampleRate = 24000" "tts_numChannels = 1" "tts_bitsPerSample = 16"
    by (simp_all add: tts_sampleRate_def tts_numChannels_def tts_bitsPerSample_def)
  have w: "wavFileBytes sampleHeap [1, 2]
             (Finite (3152519739159347 / 4503599627370496)) 0
           = Inr (wavHeader (2 + 33600) 24000 1 16 @ [1, 2] @ replicate 33600 0, 100848)"
    using wavFileBytes_finite [OF z seven_tenths_samples, of sampleHeap "[1, 2]" 0]
    by (simp add: t requests_half_second)
  have e: "(2::nat) + 33600 = 33602" by simp
  show ?thesis
    unfolding w e wavHeader_tts_33602 literal_0_7 using a c by simp
qed

text \<open>
  C8. For every byte buffer, of any length, and every duration \<open>d\<close> that is not negative,
  the encoder either returns the header, the input and the silence, or raises \<open>RangeError\<close>.
  It returns exactly when \<open>d * sampleRate\<close> evaluates to a finite double and the runtime
  constructs each buffer the encoder asks for; of the input buffer only the length has a
  part in that, and it is never tested against the block size. From \<open>d * sampleRate = 2 ^ 53\<close>
  on the encoder raises \<open>RangeError\<close> in every runtime.
\<close>

theorem encoder_failure_path:
  assumes "0 \<le> d"
  shows "wavFileBytes A pcmData (Finite d) h =
           (case js_times (Finite d) (Finite (of_nat tts_sampleRate)) of
              Finite p \<Rightarrow>
                (case constructAll A
                        (bufferRequests (length pcmData)
                           (nat \<lfloor>p\<rfloor> * tts_numChannels * (tts_bitsPerSample div 8))) h of
                   None \<Rightarrow> Inl RangeError
                 | Some h' \<Rightarrow>
                     Inr (wavHeader
                            (length pcmData
                               + nat \<lfloor>p\<rfloor> * tts_numChannels * (tts_bitsPerSample div 8))
                            tts_sampleRate tts_numChannels tts_bitsPerSample
                          @ pcmData
                          @ replicate (nat \<lfloor>p\<rfloor> * tts_numChannels * (tts_bitsPerSample div 8)) 0,
                          h'))
            | y \<Rightarrow> Inl RangeError)
         \<and> ((\<exists>out h'. wavFileBytes A pcmData (Finite d) h = Inr (out, h')) \<longleftrightarrow>
              (\<exists>p h'. js_times (Finite d) (Finite (of_nat tts_sampleRate)) = Finite p
                 \<and> constructAll A
                      (bufferRequests (length pcmData)
                         (nat \<lfloor>p\<rfloor> * tts_numChannels * (tts_bitsPerSample div 8))) h
                    = Some h'))
         \<and> (\<forall>other. length other = length pcmData \<longrightarrow>
               ((\<exists>out h'. wavFileBytes A other (Finite d) h = Inr (out, h')) \<longleftrightarrow>
                (\<exists>out h'. wavFileBytes A pcmData (Finite d) h = Inr (out, h'))))
         \<and> (2 ^ 53 \<le> d * of_nat tts_sampleRate \<longrightarrow>
              wavFileBytes A pcmData (Finite d) h = Inl RangeError)
         \<and> wavFileBytes A pcmData PosInfinity h = Inl RangeError"
proof -
  have n: "nat \<lfloor>p\<rfloor> * tts_numChannels * (tts_bitsPerSample div 8) = 2 * nat \<lfloor>p\<rfloor>" for p :: rat
    by (simp add: tts_numChannels_def tts_bitsPerSample_def)
  have s: "rat_of_nat tts_sampleRate = 24000" by (simp add: tts_sampleRate_def)
  have c: "wavFileBytes A b (Finite d) h =
           (case js_times (Finite d) (Finite 24000) of
              Finite p \<Rightarrow>
                (case constructAll A (bufferRequests (length b) (2 * nat \<lfloor>p\<rfloor>)) h of
                   None \<Rightarrow> Inl RangeError
                 | Some h' \<Rightarrow>
                     Inr (wavHeader (length b + 2 * nat \<lfloor>p\<rfloor>) tts_sampleRate
                            tts_numChannels tts_bitsPerSample
                          @ b @ replicate (2 * nat \<lfloor>p\<rfloor>) 0, h'))
            | y \<Rightarrow> Inl RangeError)" for b
    using assms by (rule wavFileBytes_cases)
  have i: "(\<exists>out h'. wavFileBytes A b (Finite d) h = Inr (out, h')) \<longleftrightarrow>
             (\<exists>p h'. js_times (Finite d) (Finite 24000) = Finite p
                \<and> constructAll A (bufferRequests (length b) (2 * nat \<lfloor>p\<rfloor>)) h = Some h')" for b
    unfolding c
    by (cases "js_times (Finite d) (Finite 24000)") (auto split: option.splits)
  have c1: "wavFileBytes A pcmData (Finite d) h =
           (case js_times (Finite d) (Finite (of_nat tts_sampleRate)) of
              Finite p \<Rightarrow>
                (case constructAll A
                        (bufferRequests (length pcmData)
                           (nat \<lfloor>p\<rfloor> * tts_numChannels * (tts_bitsPerSample div 8))) h of
                   None \<Rightarrow> Inl RangeError
                 | Some h' \<Rightarrow>
                     Inr (wavHeader
                            (length pcmData
                               + nat \<lfloor>p\<rfloor> * tts_numChannels * (tts_bitsPerSample div 8))
                            tts_sampleRate tts_numChannels tts_bitsPerSample
                          @ pcmData
                          @ replicate (nat \<lfloor>p\<rfloor> * tts_numChannels * (tts_bitsPerSample div 8)) 0,
                          h'))
            | y \<Rightarrow> Inl RangeError)"
    unfolding n s by (rule c)
  have c2: "(\<exists>out h'. wavFileBytes A pcmData (Finite d) h = Inr (out, h')) \<longleftrightarrow>
              (\<exists>p h'. js_times (Finite d) (Finite (of_nat tts_sampleRate)) = Finite p
                 \<and> constructAll A
                      (bufferRequests (length pcmData)
                         (nat \<lfloor>p\<rfloor> * tts_numChannels * (tts_bitsPerSample div 8))) h
                    = Some h')"
    unfolding n s by (rule i)
  have o: "\<forall>other. length other = length pcmData \<longrightarrow>
               ((\<exists>out h'. wavFileBytes A other (Finite d) h = Inr (out, h')) \<longleftrightarrow>
                (\<exists>out h'. wavFileBytes A pcmData (Finite d) h = Inr (out, h')))"
    unfolding i by simp
  have v: "2 ^ 53 \<le> d * of_nat tts_sampleRate \<longrightarrow>
              wavFileBytes A pcmData (Finite d) h = Inl RangeError"
    using wavFileBytes_overflow [of d A pcmData h] by (simp add: tts_sampleRate_def)
  show ?thesis
    by (rule conjI [OF c1 conjI [OF c2 conjI [OF o conjI [OF v wavFileBytes_PosInfinity]]]])
qed

text \<open>
  A buffer of three bytes, which is no whole number of 16-bit samples, is encoded as it is;
  with a duration of \<open>2 ^ 25\<close> seconds the sample runtime refuses the silence buffer of
  1610612736000 bytes.
\<close>

theorem encoder_failure_path_witness:
  "wavFileBytes sampleHeap [1, 2, 3] (Finite (1 / 2)) 0
     = Inr ([82, 73, 70, 70, 231, 93, 0, 0, 87, 65, 86, 69, 102, 109, 116, 32, 16, 0, 0, 0,
             1, 0, 1, 0, 192, 93, 0, 0, 128, 187, 0, 0, 2, 0, 16, 0, 100, 97, 116, 97,
             195, 93, 0, 0]
            @ [1, 2, 3] @ replicate 24000 0, 72050)
   \<and> wavFileBytes sampleHeap [1, 2, 3] (Finite (2 ^ 25)) 0 = Inl RangeError"
proof -
  have z1: "(0::rat) \<le> 1 / 2" and z2: "(0::rat) \<le> 2 ^ 25" by simp_all
  have t: "tts_sampleRate = 24000" "tts_numChannels = 1" "tts_bitsPerSample = 16"
    by (simp_all add: tts_sampleRate_def tts_numChannels_def tts_bitsPerSample_def)
  have a1: "wavFileBytes sampleHeap [1, 2, 3] (Finite (1 / 2)) 0
              = Inr (wavHeader (3 + 24000) 24000 1 16 @ [1, 2, 3] @ replicate 24000 0, 72050)"
    using encoder_failure_path [OF z1, of sampleHeap "[1, 2, 3]" 0, THEN conjunct1]
    by (simp add: t roundToDouble_12000 requests_half_second)
  have a2: "wavFileBytes sampleHeap [1, 2, 3] (Finite (2 ^ 25)) 0 = Inl RangeError"
    using encoder_failure_path [OF z2, of sampleHeap "[1, 2, 3]" 0, THEN conjunct1]
    by (simp add: t roundToDouble_long requests_half_second)
  have e: "(3::nat) + 24000 = 24003" by simp
  show ?thesis unfolding a1 a2 e wavHeader_tts_24003 by simp
qed

text \<open>
  The encoder has a failure path in every runtime: a buffer of three bytes and a duration
  of \<open>10 ^ 15\<close> seconds, which is not negative, raise \<open>RangeError\<close>.
\<close>

theorem every_runtime_refuses_long_silence:
  "\<forall>A h. wavFileBytes A [0, 0, 0] (Finite (10 ^ 15)) h = Inl RangeError"
proof -
  have "(2::rat) ^ 53 \<le> 10 ^ 15 * 24000" by simp
  then show ?thesis by (intro allI wavFileBytes_overflow)
qed

end
